theory Spec2Isabelle
  imports Complex_Main
begin

section \<open>ReasonLoop: the reasoning-session store and its WebSocket hook\<close>

text \<open>
  A shallow embedding of \<^verbatim>\<open>frontend/src/stores/reasoningStore.ts\<close> (the zustand store)
  and of the hook \<^verbatim>\<open>useReasoningWebSocket\<close> that feeds it.

  Conventions of the embedding.
  \<^item> A JavaScript \<^verbatim>\<open>number\<close> that the code uses as a counter or an index is an \<^typ>\<open>int\<close>,
    standing for the double of that value (fractional and NaN indices are outside the
    model). Where the code adds to such a number, the sum is rounded as a double is:
    \<open>js_add\<close> below. Scores and the other fractional settings are \<^typ>\<open>rat\<close>: the code
    only stores and compares them.
  \<^item> \<^verbatim>\<open>null\<close> and \<^verbatim>\<open>undefined\<close> are \<^term>\<open>None\<close>.
  \<^item> The store is a value: every action takes the state and returns the next one. The
    iteration objects are shared between the old and the new array by the source's
    \<^verbatim>\<open>[...get().iterations]\<close>, but each slot holds an object of its own (they are only
    created by \<^verbatim>\<open>startGeneration\<close>), so writing through one slot is an update of that slot.
\<close>

subsection \<open>JavaScript arrays and the remainder operator\<close>

text \<open>
  An array has its indexed elements and, as every object, further own properties. Only
  integers from \<open>0\<close> to \<open>2^32 - 2\<close> are array indices; a write at any other key (such
  as \<open>-1\<close>) creates an ordinary property and leaves \<^verbatim>\<open>length\<close> alone. A hole and an
  element that is \<^verbatim>\<open>undefined\<close> both read as \<^verbatim>\<open>undefined\<close>.
\<close>

record 'a js_array =
  elems :: "'a option list"
  props :: "(int \<times> 'a) list"

definition js_empty :: "'a js_array" where
  "js_empty = \<lparr>elems = [], props = []\<rparr>"

definition is_array_index :: "int \<Rightarrow> bool" where
  "is_array_index i \<longleftrightarrow> 0 \<le> i \<and> i < 4294967295"

text \<open>\<^verbatim>\<open>a[i]\<close>\<close>

definition js_get :: "'a js_array \<Rightarrow> int \<Rightarrow> 'a option" where
  "js_get a i =
     (if is_array_index i
      then (if nat i < length (elems a) then elems a ! nat i else None)
      else map_of (props a) i)"

text \<open>\<^verbatim>\<open>a[i] = v\<close>: a write past the end extends the array, leaving holes.\<close>

definition js_set :: "'a js_array \<Rightarrow> int \<Rightarrow> 'a \<Rightarrow> 'a js_array" where
  "js_set a i v =
     (if is_array_index i
      then a\<lparr>elems :=
             (if nat i < length (elems a) then (elems a)[nat i := Some v]
              else elems a @ replicate (nat i - length (elems a)) None @ [Some v])\<rparr>
      else a\<lparr>props := (i, v) # props a\<rparr>)"

text \<open>\<^verbatim>\<open>[...a]\<close>: the iterator yields the indexed elements only.\<close>

definition spread :: "'a js_array \<Rightarrow> 'a js_array" where
  "spread a = \<lparr>elems = elems a, props = []\<rparr>"

text \<open>\<^verbatim>\<open>a % b\<close> on integers: the remainder has the sign of the dividend.\<close>

definition js_rem :: "int \<Rightarrow> int \<Rightarrow> int" where
  "js_rem a b = sgn a * (\<bar>a\<bar> mod \<bar>b\<bar>)"

text \<open>
  A double has 53 significant bits. An integer that needs more is rounded to the nearest
  multiple of the unit in its last place, a tie going to the even multiple; what rounds to
  \<open>2^1024\<close> or beyond is \<^verbatim>\<open>Infinity\<close>, here \<^term>\<open>None\<close>.
\<close>

fun bit_length :: "nat \<Rightarrow> nat" where
  "bit_length n = (if n = 0 then 0 else Suc (bit_length (n div 2)))"

definition double_round :: "int \<Rightarrow> int option" where
  "double_round x =
     (let m = nat \<bar>x\<bar>;
          e = bit_length m
      in if e \<le> 53 then Some x
         else
           (let u = 2 ^ (e - 53);
                q = m div u;
                r = m mod u;
                q' = (if 2 * r < u \<or> (2 * r = u \<and> even q) then q else q + 1)
            in if 2 ^ 1024 \<le> q' * u then None else Some (sgn x * int (q' * u))))"

text \<open>\<^verbatim>\<open>a + b\<close> on integers that are doubles: the exact sum, rounded.\<close>

definition js_add :: "int \<Rightarrow> int \<Rightarrow> int option" where
  "js_add a b = double_round (a + b)"

subsection \<open>The data model of the store\<close>

record CritiqueResult =
  strengths :: "string list"
  weaknesses :: "string list"
  suggestions :: "string list"
  score :: rat
  raw_critique :: string

text \<open>
  \<open>generation_model\<close> and \<open>critique_model\<close> are declared \<^verbatim>\<open>string\<close>; they hold what
  indexing the roster returned, which is \<^verbatim>\<open>undefined\<close> for an index outside the roster.
\<close>

record Iteration =
  number :: int
  generation :: string
  generation_model :: "string option"
  critique :: "CritiqueResult option"
  critique_model :: "string option"
  isGenerating :: bool
  isCritiquing :: bool

datatype OutputLength = Short | Medium | Long

datatype Mode = Generate | Critique | Council | Ultrathink

record ReasoningConfig =
  generator_model :: string
  critic_model :: string
  refiner_model :: string
  temperature :: rat
  max_tokens :: int
  max_iterations :: int
  score_threshold :: rat
  output_length :: OutputLength
  mode :: Mode

datatype SessionStatus = Idle | Running | Paused | Completed | Stopped | Error

text \<open>The fields of \<^verbatim>\<open>ContextFile\<close>, prefixed: \<open>name\<close>, \<open>content\<close>, \<open>type\<close>, \<open>size\<close>, ...\<close>

record ContextFile =
  cf_name :: string
  cf_content :: string
  cf_type :: string
  cf_size :: int
  cf_isBase64 :: "bool option"
  cf_mimeType :: "string option"

datatype StreamingType = GenerationStream | CritiqueStream

record ReasoningState =
  sessionId :: "string option"
  task :: string
  "context" :: string
  contextFiles :: "ContextFile list"
  status :: SessionStatus
  iterations :: "Iteration js_array"
  currentIteration :: int
  finalOutput :: "string option"
  finalScore :: "rat option"
  streamingContent :: string
  streamingType :: "StreamingType option"
  config :: ReasoningConfig
  wsConnected :: bool
  needsWebSocket :: bool

subsection \<open>Role rotation\<close>

record Rotated =
  generator :: "string option"
  critic :: "string option"

text \<open>
  \<^verbatim>\<open>models[idx]\<close> on the three-element roster literal. The remainder of
  \<^verbatim>\<open>Infinity\<close> is NaN, and \<^verbatim>\<open>models[NaN]\<close> is \<^verbatim>\<open>undefined\<close>.
\<close>

definition roster_at :: "string list \<Rightarrow> int \<Rightarrow> string option" where
  "roster_at models idx = (if 0 \<le> idx \<and> nat idx < length models then Some (models ! nat idx) else None)"

definition getRotatedModels :: "ReasoningConfig \<Rightarrow> int \<Rightarrow> Rotated" where
  "getRotatedModels cfg iteration =
     (let models = [generator_model cfg, critic_model cfg, refiner_model cfg];
          genIdx = js_rem iteration 3;
          criticIdx = map_option (\<lambda>n. js_rem n 3) (js_add iteration 1)
      in \<lparr>generator = roster_at models genIdx,
          critic = (case criticIdx of None \<Rightarrow> None | Some c \<Rightarrow> roster_at models c)\<rparr>)"

text \<open>
  The role shown for roster slot \<open>k\<close> by \<^verbatim>\<open>ModelTriad\<close>:
  \<^verbatim>\<open>genIdx === k ? 'Generator' : critIdx === k ? 'Critic' : 'Refiner'\<close>.
\<close>

datatype Role = Generator | Critic | Refiner

definition slot_role :: "int \<Rightarrow> int \<Rightarrow> Role" where
  "slot_role currentIter k =
     (let genIdx = js_rem currentIter 3;
          critIdx = map_option (\<lambda>n. js_rem n 3) (js_add currentIter 1)
      in if genIdx = k then Generator else if critIdx = Some k then Critic else Refiner)"

subsection \<open>The store: initial state and actions\<close>

definition defaultConfig :: ReasoningConfig where
  "defaultConfig =
     \<lparr>generator_model = ''anthropic/claude-3.7-sonnet'',
      critic_model = ''openai/o3'',
      refiner_model = ''anthropic/claude-opus-4.5'',
      temperature = 1,
      max_tokens = 32000,
      max_iterations = 5,
      score_threshold = 8,
      output_length = Long,
      mode = Generate\<rparr>"

definition initialState :: ReasoningState where
  "initialState =
     \<lparr>sessionId = None,
      task = '''',
      context = '''',
      contextFiles = [],
      status = Idle,
      iterations = js_empty,
      currentIteration = 0,
      finalOutput = None,
      finalScore = None,
      streamingContent = '''',
      streamingType = None,
      config = defaultConfig,
      wsConnected = False,
      needsWebSocket = False\<rparr>"

definition setStatus :: "SessionStatus \<Rightarrow> ReasoningState \<Rightarrow> ReasoningState" where
  "setStatus st s = s\<lparr>status := st\<rparr>"

definition setWsConnected :: "bool \<Rightarrow> ReasoningState \<Rightarrow> ReasoningState" where
  "setWsConnected b s = s\<lparr>wsConnected := b\<rparr>"

definition startGeneration :: "int \<Rightarrow> ReasoningState \<Rightarrow> ReasoningState" where
  "startGeneration iteration s =
     (let its = spread (iterations s);
          rotated = getRotatedModels (config s) iteration;
          its' = (case js_get its iteration of
                    None \<Rightarrow>
                      js_set its iteration
                        \<lparr>number = iteration,
                         generation = '''',
                         generation_model = generator rotated,
                         critique = None,
                         critique_model = critic rotated,
                         isGenerating = True,
                         isCritiquing = False\<rparr>
                  | Some it \<Rightarrow> js_set its iteration (it\<lparr>isGenerating := True\<rparr>))
      in s\<lparr>iterations := its',
            currentIteration := iteration,
            streamingContent := '''',
            streamingType := Some GenerationStream,
            status := Running\<rparr>)"

definition appendGenerationChunk :: "string \<Rightarrow> ReasoningState \<Rightarrow> ReasoningState" where
  "appendGenerationChunk chunk s =
     (let sc = streamingContent s @ chunk;
          its = spread (iterations s);
          current = currentIteration s;
          its' = (case js_get its current of
                    None \<Rightarrow> its
                  | Some it \<Rightarrow> js_set its current (it\<lparr>generation := sc\<rparr>))
      in s\<lparr>streamingContent := sc, iterations := its'\<rparr>)"

definition completeGeneration :: "string \<Rightarrow> ReasoningState \<Rightarrow> ReasoningState" where
  "completeGeneration content s =
     (let its = spread (iterations s);
          current = currentIteration s;
          its' = (case js_get its current of
                    None \<Rightarrow> its
                  | Some it \<Rightarrow> js_set its current (it\<lparr>generation := content, isGenerating := False\<rparr>))
      in s\<lparr>iterations := its', streamingContent := '''', streamingType := None\<rparr>)"

definition startCritique :: "ReasoningState \<Rightarrow> ReasoningState" where
  "startCritique s =
     (let its = spread (iterations s);
          current = currentIteration s;
          its' = (case js_get its current of
                    None \<Rightarrow> its
                  | Some it \<Rightarrow> js_set its current (it\<lparr>isCritiquing := True\<rparr>))
      in s\<lparr>iterations := its', streamingContent := '''', streamingType := Some CritiqueStream\<rparr>)"

definition appendCritiqueChunk :: "string \<Rightarrow> ReasoningState \<Rightarrow> ReasoningState" where
  "appendCritiqueChunk chunk s = s\<lparr>streamingContent := streamingContent s @ chunk\<rparr>"

definition completeCritique :: "CritiqueResult \<Rightarrow> ReasoningState \<Rightarrow> ReasoningState" where
  "completeCritique crit s =
     (let its = spread (iterations s);
          current = currentIteration s;
          its' = (case js_get its current of
                    None \<Rightarrow> its
                  | Some it \<Rightarrow> js_set its current (it\<lparr>critique := Some crit, isCritiquing := False\<rparr>))
      in s\<lparr>iterations := its', streamingContent := '''', streamingType := None\<rparr>)"

text \<open>
  The score argument (\<^verbatim>\<open>_score\<close>) is not used by the source; the dispatcher passes what
  it received, a number or \<^verbatim>\<open>null\<close>.
\<close>

definition completeIteration :: "string \<Rightarrow> rat option \<Rightarrow> CritiqueResult \<Rightarrow> ReasoningState \<Rightarrow> ReasoningState" where
  "completeIteration content sc crit s =
     (let its = spread (iterations s);
          current = currentIteration s;
          its' = (case js_get its current of
                    None \<Rightarrow> its
                  | Some it \<Rightarrow>
                      js_set its current
                        (it\<lparr>generation := content, critique := Some crit,
                            isGenerating := False, isCritiquing := False\<rparr>))
      in s\<lparr>iterations := its'\<rparr>)"

definition completeSession :: "string \<Rightarrow> rat \<Rightarrow> ReasoningState \<Rightarrow> ReasoningState" where
  "completeSession output sc s =
     s\<lparr>finalOutput := Some output,
       finalScore := Some sc,
       status := Completed,
       streamingContent := '''',
       streamingType := None\<rparr>"

text \<open>\<^verbatim>\<open>set\<close> merges the listed fields into the state: \<open>config\<close> is not among them.\<close>

definition reset :: "ReasoningState \<Rightarrow> ReasoningState" where
  "reset s =
     s\<lparr>sessionId := None,
       task := '''',
       context := '''',
       contextFiles := [],
       status := Idle,
       iterations := js_empty,
       currentIteration := 0,
       finalOutput := None,
       finalScore := None,
       streamingContent := '''',
       streamingType := None,
       wsConnected := False,
       needsWebSocket := False\<rparr>"

subsection \<open>Store actions as data\<close>

text \<open>The eight iteration actions of the store, to speak about sequences of them.\<close>

datatype action =
    StartGeneration int
  | AppendGenerationChunk string
  | CompleteGeneration string
  | StartCritique
  | AppendCritiqueChunk string
  | CompleteCritique CritiqueResult
  | CompleteIteration string "rat option" CritiqueResult
  | CompleteSession string rat

fun act :: "action \<Rightarrow> ReasoningState \<Rightarrow> ReasoningState" where
  "act (StartGeneration i) s = startGeneration i s"
| "act (AppendGenerationChunk c) s = appendGenerationChunk c s"
| "act (CompleteGeneration c) s = completeGeneration c s"
| "act StartCritique s = startCritique s"
| "act (AppendCritiqueChunk c) s = appendCritiqueChunk c s"
| "act (CompleteCritique k) s = completeCritique k s"
| "act (CompleteIteration c sc k) s = completeIteration c sc k s"
| "act (CompleteSession c sc) s = completeSession c sc s"

fun acts :: "action list \<Rightarrow> ReasoningState \<Rightarrow> ReasoningState" where
  "acts [] s = s"
| "acts (a # as) s = acts as (act a s)"

text \<open>
  The iteration the actions write to: \<^verbatim>\<open>iterations[current]\<close> of the copy they take.
\<close>

definition currentOpen :: "ReasoningState \<Rightarrow> Iteration option" where
  "currentOpen s = js_get (spread (iterations s)) (currentIteration s)"

text \<open>The number of phase flags that are set, over every iteration object the array holds.\<close>

definition flags :: "Iteration \<Rightarrow> nat" where
  "flags it = (if isGenerating it then 1 else 0) + (if isCritiquing it then 1 else 0)"

definition flags_opt :: "Iteration option \<Rightarrow> nat" where
  "flags_opt x = (case x of None \<Rightarrow> 0 | Some it \<Rightarrow> flags it)"

definition array_flags :: "Iteration js_array \<Rightarrow> nat" where
  "array_flags a =
     sum_list (map flags_opt (elems a)) + sum_list (map (flags \<circ> snd) (props a))"

definition flag_count :: "ReasoningState \<Rightarrow> nat" where
  "flag_count s = array_flags (iterations s)"

text \<open>
  The order of events that the server keeps, as guards on the state: a phase is opened only
  when none is open, a critique is delivered for a generation that has text, and
  \<open>iteration_complete\<close> carries text.
\<close>

fun in_order :: "ReasoningState \<Rightarrow> action \<Rightarrow> bool" where
  "in_order s (StartGeneration i) = (flag_count s = 0)"
| "in_order s StartCritique = (flag_count s = 0)"
| "in_order s (CompleteCritique k) =
     (case currentOpen s of None \<Rightarrow> True | Some it \<Rightarrow> generation it \<noteq> [])"
| "in_order s (CompleteIteration c sc k) = (c \<noteq> [])"
| "in_order s a = True"

fun ordered_run :: "ReasoningState \<Rightarrow> action list \<Rightarrow> bool" where
  "ordered_run s [] = True"
| "ordered_run s (a # as) = (in_order s a \<and> ordered_run (act a s) as)"

text \<open>The keys under which an array holds something: its indices and its other properties.\<close>

definition array_keys :: "'a js_array \<Rightarrow> int list" where
  "array_keys a = map int [0..<length (elems a)] @ map fst (props a)"

text \<open>
  A step from \<open>s\<close> to \<open>s'\<close> respects the rule on critiques when every iteration of \<open>s'\<close>
  whose critique is not null and is not the critique it had in \<open>s\<close> has a non-empty
  generation.
\<close>

definition critique_written_ok :: "ReasoningState \<Rightarrow> ReasoningState \<Rightarrow> bool" where
  "critique_written_ok s s' \<longleftrightarrow>
     (\<forall>j \<in> set (array_keys (iterations s')).
        case js_get (iterations s') j of
          None \<Rightarrow> True
        | Some it' \<Rightarrow>
            critique it' \<noteq> None \<and> map_option critique (js_get (iterations s) j) \<noteq> Some (critique it')
              \<longrightarrow> generation it' \<noteq> [])"

text \<open>A critique for the examples.\<close>

definition critique_sample :: CritiqueResult where
  "critique_sample =
     \<lparr>strengths = [''clear''], weaknesses = [''short''], suggestions = [''expand''],
      score = 7.5, raw_critique = ''ok''\<rparr>"

subsection \<open>The WebSocket hook: state\<close>

text \<open>
  The platform's WebSocket objects form a heap: a socket is its position in \<open>sockets\<close>. A
  socket remembers the \<open>sid\<close> that its handlers captured when \<^verbatim>\<open>connect(sid)\<close> created it.
\<close>

datatype ReadyState = CONNECTING | OPEN | CLOSING | CLOSED

record Socket =
  sock_sid :: string
  readyState :: ReadyState

text \<open>
  Calls into the platform, in the order the hook makes them: \<^verbatim>\<open>new WebSocket\<close> and
  \<^verbatim>\<open>close()\<close>; the latter is recorded with the value \<open>isIntentionalCloseRef\<close> has at the call.
\<close>

datatype ws_call = WsCreate nat string | WsClose nat bool

datatype console_line = ConsoleLog string | ConsoleError string

record World =
  store :: ReasoningState
  sockets :: "Socket list"
  wsRef :: "nat option"
  connectedSessionRef :: "string option"
  isIntentionalCloseRef :: bool
  reconnectAttempts :: nat
  timeouts :: "(int \<times> string) list"
  fired :: "nat list"
  calls :: "ws_call list"
  console :: "console_line list"

definition initialWorld :: World where
  "initialWorld =
     \<lparr>store = initialState,
      sockets = [],
      wsRef = None,
      connectedSessionRef = None,
      isIntentionalCloseRef = False,
      reconnectAttempts = 0,
      timeouts = [],
      fired = [],
      calls = [],
      console = []\<rparr>"

definition maxReconnectAttempts :: nat where
  "maxReconnectAttempts = 3"

definition console_log :: "string \<Rightarrow> World \<Rightarrow> World" where
  "console_log msg w = w\<lparr>console := console w @ [ConsoleLog msg]\<rparr>"

definition console_error :: "string \<Rightarrow> World \<Rightarrow> World" where
  "console_error msg w = w\<lparr>console := console w @ [ConsoleError msg]\<rparr>"

subsection \<open>The platform: sockets and timers\<close>

definition ready :: "World \<Rightarrow> nat \<Rightarrow> ReadyState option" where
  "ready w k = (if k < length (sockets w) then Some (readyState (sockets w ! k)) else None)"

text \<open>\<^verbatim>\<open>wsRef.current?.readyState\<close>\<close>

definition ws_readyState :: "World \<Rightarrow> ReadyState option" where
  "ws_readyState w = (case wsRef w of None \<Rightarrow> None | Some k \<Rightarrow> ready w k)"

definition set_ready :: "nat \<Rightarrow> ReadyState \<Rightarrow> World \<Rightarrow> World" where
  "set_ready k r w =
     (if k < length (sockets w)
      then w\<lparr>sockets := (sockets w)[k := (sockets w ! k)\<lparr>readyState := r\<rparr>]\<rparr>
      else w)"

text \<open>
  \<^verbatim>\<open>createReasoningWebSocket(sid)\<close>: a new socket, in state CONNECTING. The result is the
  world with the socket appended; its position is the old length of the heap.
\<close>

definition createReasoningWebSocket :: "string \<Rightarrow> World \<Rightarrow> World" where
  "createReasoningWebSocket sid w =
     w\<lparr>sockets := sockets w @ [\<lparr>sock_sid = sid, readyState = CONNECTING\<rparr>],
       calls := calls w @ [WsCreate (length (sockets w)) sid]\<rparr>"

text \<open>
  \<^verbatim>\<open>ws.close()\<close>: a socket that is open or connecting starts closing at once; the close
  event comes later. On a socket that is closing or closed the call does nothing.
\<close>

definition ws_close :: "nat \<Rightarrow> World \<Rightarrow> World" where
  "ws_close k w =
     (let w' = w\<lparr>calls := calls w @ [WsClose k (isIntentionalCloseRef w)]\<rparr>
      in if ready w k = Some OPEN \<or> ready w k = Some CONNECTING then set_ready k CLOSING w' else w')"

text \<open>\<^verbatim>\<open>setTimeout(() => connect(sid), delay)\<close>\<close>

definition setTimeout :: "int \<Rightarrow> string \<Rightarrow> World \<Rightarrow> World" where
  "setTimeout delay sid w = w\<lparr>timeouts := timeouts w @ [(delay, sid)]\<rparr>"

subsection \<open>The WebSocket hook: inbound events\<close>

text \<open>
  The envelope, as \<^verbatim>\<open>interface ReasoningEvent\<close> declares it (fields prefixed where the
  name is taken). \<^verbatim>\<open>JSON.parse\<close> belongs to the platform and is a parameter of the handler:
  it throws, or returns \<^verbatim>\<open>null\<close>, or a value without a property \<^verbatim>\<open>type\<close> (a number, a
  string, a boolean, an array), or an object, taken to have the declared shape. The
  optional \<^verbatim>\<open>score\<close> is missing (\<^verbatim>\<open>undefined\<close>), or \<^verbatim>\<open>null\<close>, or a number; a critique
  that is missing or \<^verbatim>\<open>null\<close> is \<^term>\<open>None\<close>, the code only tests its truth.
\<close>

datatype score_field = ScoreAbsent | ScoreNull | ScoreNumber rat

record ReasoningEvent =
  ev_type :: string
  session_id :: string
  ev_iteration :: int
  ev_content :: string
  ev_score :: score_field
  ev_critique :: "CritiqueResult option"
  timestamp :: string

datatype js_exn = SyntaxError | TypeError

datatype json = JNull | JOther | JObject ReasoningEvent

type_synonym json_parse = "string \<Rightarrow> js_exn + json"

definition event_sample :: ReasoningEvent where
  "event_sample =
     \<lparr>ev_type = ''heartbeat'', session_id = ''s1'', ev_iteration = 0, ev_content = [],
      ev_score = ScoreAbsent, ev_critique = None, timestamp = []\<rparr>"

text \<open>A parser for the examples: it knows one payload and rejects every other.\<close>

definition parse_sample :: json_parse where
  "parse_sample payload = (if payload = ''{}'' then Inr (JObject event_sample) else Inl SyntaxError)"

text \<open>The \<^verbatim>\<open>switch (data.type)\<close> of \<^verbatim>\<open>ws.onmessage\<close>; it has no default case.\<close>

definition dispatch :: "ReasoningEvent \<Rightarrow> World \<Rightarrow> World" where
  "dispatch d w =
     (let t = ev_type d in
      if t = ''session_started'' then w\<lparr>store := setStatus Running (store w)\<rparr>
      else if t = ''generation_start'' then w\<lparr>store := startGeneration (ev_iteration d) (store w)\<rparr>
      else if t = ''generation_chunk'' then w\<lparr>store := appendGenerationChunk (ev_content d) (store w)\<rparr>
      else if t = ''generation_complete'' then w\<lparr>store := completeGeneration (ev_content d) (store w)\<rparr>
      else if t = ''critique_start'' then w\<lparr>store := startCritique (store w)\<rparr>
      else if t = ''critique_chunk'' then w\<lparr>store := appendCritiqueChunk (ev_content d) (store w)\<rparr>
      else if t = ''critique_complete'' then
        (case ev_critique d of
           Some c \<Rightarrow> w\<lparr>store := completeCritique c (store w)\<rparr>
         | None \<Rightarrow> w)
      else if t = ''iteration_complete'' then
        (case ev_critique d of
           None \<Rightarrow> w
         | Some c \<Rightarrow>
             (case ev_score d of
                ScoreAbsent \<Rightarrow> w
              | ScoreNull \<Rightarrow> w\<lparr>store := completeIteration (ev_content d) None c (store w)\<rparr>
              | ScoreNumber sc \<Rightarrow>
                  w\<lparr>store := completeIteration (ev_content d) (Some sc) c (store w)\<rparr>))
      else if t = ''session_complete'' then
        w\<lparr>store := completeSession (ev_content d) (case ev_score d of ScoreNumber sc \<Rightarrow> sc | _ \<Rightarrow> 0) (store w),
          isIntentionalCloseRef := True\<rparr>
      else if t = ''session_stopped'' then
        w\<lparr>store := setStatus Stopped (store w), isIntentionalCloseRef := True\<rparr>
      else if t = ''session_paused'' then w\<lparr>store := setStatus Paused (store w)\<rparr>
      else if t = ''session_resumed'' then w\<lparr>store := setStatus Running (store w)\<rparr>
      else if t = ''session_error'' then
        (console_error ''Session error:'' w)
          \<lparr>store := setStatus Error (store w), isIntentionalCloseRef := True\<rparr>
      else w)"

text \<open>Events applied in the order they arrive.\<close>

fun dispatch_all :: "ReasoningEvent list \<Rightarrow> World \<Rightarrow> World" where
  "dispatch_all [] w = w"
| "dispatch_all (d # ds) w = dispatch_all ds (dispatch d w)"

definition known_types :: "string list" where
  "known_types =
     [''session_started'', ''generation_start'', ''generation_chunk'', ''generation_complete'',
      ''critique_start'', ''critique_chunk'', ''critique_complete'', ''iteration_complete'',
      ''session_complete'', ''session_stopped'', ''session_paused'', ''session_resumed'',
      ''session_error'']"

text \<open>
  The body of the \<^verbatim>\<open>try\<close> block: \<open>Inl\<close> is an exception thrown inside it. Reading
  \<^verbatim>\<open>data.type\<close> of \<^verbatim>\<open>null\<close> throws a TypeError.
\<close>

definition onmessage_try :: "json_parse \<Rightarrow> string \<Rightarrow> World \<Rightarrow> js_exn + World" where
  "onmessage_try parse payload w =
     (case parse payload of
        Inl e \<Rightarrow> Inl e
      | Inr JNull \<Rightarrow> Inl TypeError
      | Inr JOther \<Rightarrow> Inr (console_log ''WS Event:'' w)
      | Inr (JObject d) \<Rightarrow> Inr (dispatch d (console_log ''WS Event:'' w)))"

text \<open>
  The handler: the \<^verbatim>\<open>try\<close> block with its \<^verbatim>\<open>catch\<close>. The result is the handler's
  completion: \<open>Inl\<close> would be an exception that leaves the handler.
\<close>

definition ws_onmessage :: "json_parse \<Rightarrow> string \<Rightarrow> World \<Rightarrow> js_exn + World" where
  "ws_onmessage parse payload w =
     (case onmessage_try parse payload w of
        Inr w' \<Rightarrow> Inr w'
      | Inl err \<Rightarrow> Inr (console_error ''Failed to parse WebSocket message:'' w))"

subsection \<open>The WebSocket hook: connection life cycle\<close>

definition ws_onopen :: "World \<Rightarrow> World" where
  "ws_onopen w =
     (let w1 = console_log ''WebSocket connected'' w;
          w2 = w1\<lparr>reconnectAttempts := 0\<rparr>
      in w2\<lparr>store := setWsConnected True (store w2)\<rparr>)"

definition ws_onerror :: "World \<Rightarrow> World" where
  "ws_onerror w = console_error ''WebSocket error:'' w"

text \<open>\<^verbatim>\<open>ws.onclose\<close> of a socket created by \<^verbatim>\<open>connect(sid)\<close>.\<close>

definition ws_onclose :: "string \<Rightarrow> World \<Rightarrow> World" where
  "ws_onclose sid w =
     (let w1 = console_log ''WebSocket closed, code:'' w;
          w2 = w1\<lparr>store := setWsConnected False (store w1)\<rparr>
      in if \<not> isIntentionalCloseRef w2 \<and>
            status (store w2) = Running \<and>
            connectedSessionRef w2 = Some sid \<and>
            reconnectAttempts w2 < maxReconnectAttempts
         then
           (let w3 = w2\<lparr>reconnectAttempts := reconnectAttempts w2 + 1\<rparr>;
                w4 = console_log ''Reconnecting (attempt ...)'' w3
            in setTimeout (1000 * int (reconnectAttempts w4)) sid w4)
         else w2)"

definition connect :: "string \<Rightarrow> World \<Rightarrow> World" where
  "connect sid w =
     (if ws_readyState w = Some OPEN \<or> ws_readyState w = Some CONNECTING then w
      else
        (let w1 = console_log ''Connecting WebSocket for session:'' w;
             w2 = w1\<lparr>isIntentionalCloseRef := False\<rparr>;
             w3 = createReasoningWebSocket sid w2
         in w3\<lparr>wsRef := Some (length (sockets w2)), connectedSessionRef := Some sid\<rparr>))"

text \<open>
  The effect on \<^verbatim>\<open>[sessionId, shouldConnect, connect]\<close>. Its first branch, taken when
  \<^verbatim>\<open>!sessionId || !shouldConnect\<close> (the id is null or the empty string):
\<close>

definition effect_cleanup :: "World \<Rightarrow> World" where
  "effect_cleanup w =
     (let w1 = (case wsRef w of
                  None \<Rightarrow> w
                | Some k \<Rightarrow> (ws_close k (w\<lparr>isIntentionalCloseRef := True\<rparr>))\<lparr>wsRef := None\<rparr>)
      in w1\<lparr>connectedSessionRef := None\<rparr>)"

fun sessionEffect :: "string option \<Rightarrow> bool \<Rightarrow> World \<Rightarrow> World" where
  "sessionEffect None shouldConnect w = effect_cleanup w"
| "sessionEffect (Some sid) shouldConnect w =
     (if sid = [] \<or> \<not> shouldConnect then effect_cleanup w
      else if connectedSessionRef w = Some sid \<and> ws_readyState w = Some OPEN then w
      else
        (let w1 = (case wsRef w of
                     None \<Rightarrow> w
                   | Some k \<Rightarrow>
                       if connectedSessionRef w \<noteq> Some sid
                       then (ws_close k (w\<lparr>isIntentionalCloseRef := True\<rparr>))\<lparr>wsRef := None\<rparr>
                       else w);
             w2 = w1\<lparr>reconnectAttempts := 0\<rparr>
         in connect sid w2))"

text \<open>The cleanup of the second effect, run when the component unmounts.\<close>

definition unmountCleanup :: "World \<Rightarrow> World" where
  "unmountCleanup w =
     (let w1 = console_log ''Component unmounting, cleaning up WebSocket'' w;
          w2 = w1\<lparr>isIntentionalCloseRef := True\<rparr>
      in case wsRef w2 of
           None \<Rightarrow> w2
         | Some k \<Rightarrow> (ws_close k w2)\<lparr>wsRef := None\<rparr>)"

subsection \<open>Runs of the hook\<close>

text \<open>
  Everything happens in a callback, one at a time. The platform delivers \<open>open\<close> to a
  connecting socket, \<open>message\<close> to an open one, \<open>close\<close> once to a socket that is not yet
  closed, and fires a timer once; the component renders with a session id and a flag, or
  unmounts. An event that cannot happen in a state leaves it as it is.
\<close>

datatype event =
    EvOpen nat
  | EvMessage nat string
  | EvError nat
  | EvClose nat
  | EvTimeout nat
  | EvRender "string option" bool
  | EvUnmount

fun step :: "json_parse \<Rightarrow> event \<Rightarrow> World \<Rightarrow> World" where
  "step parse (EvOpen k) w =
     (if ready w k = Some CONNECTING then ws_onopen (set_ready k OPEN w) else w)"
| "step parse (EvMessage k payload) w =
     (if ready w k = Some OPEN
      then (case ws_onmessage parse payload w of Inr w' \<Rightarrow> w' | Inl err \<Rightarrow> w)
      else w)"
| "step parse (EvError k) w = (if k < length (sockets w) then ws_onerror w else w)"
| "step parse (EvClose k) w =
     (if k < length (sockets w) \<and> ready w k \<noteq> Some CLOSED
      then ws_onclose (sock_sid (sockets w ! k)) (set_ready k CLOSED w)
      else w)"
| "step parse (EvTimeout n) w =
     (if n < length (timeouts w) \<and> n \<notin> set (fired w)
      then connect (snd (timeouts w ! n)) (w\<lparr>fired := n # fired w\<rparr>)
      else w)"
| "step parse (EvRender sid shouldConnect) w = sessionEffect sid shouldConnect w"
| "step parse EvUnmount w = unmountCleanup w"

fun run :: "json_parse \<Rightarrow> event list \<Rightarrow> World \<Rightarrow> World" where
  "run parse [] w = w"
| "run parse (e # es) w = run parse es (step parse e w)"

text \<open>
  For the reconnection bound: a run during which the session stays running, no close is
  marked intentional and the hook stays bound to \<open>sid\<close>, with no successful open and no
  new request from the component in between.
\<close>

definition steady :: "string \<Rightarrow> World \<Rightarrow> bool" where
  "steady sid w \<longleftrightarrow>
     status (store w) = Running \<and> \<not> isIntentionalCloseRef w \<and> connectedSessionRef w = Some sid"

fun no_reset :: "event \<Rightarrow> bool" where
  "no_reset (EvOpen k) = False"
| "no_reset (EvRender sid shouldConnect) = False"
| "no_reset EvUnmount = False"
| "no_reset e = True"

fun steady_run :: "json_parse \<Rightarrow> string \<Rightarrow> World \<Rightarrow> event list \<Rightarrow> bool" where
  "steady_run parse sid w [] = steady sid w"
| "steady_run parse sid w (e # es) =
     (steady sid w \<and> no_reset e \<and> steady_run parse sid (step parse e w) es)"

text \<open>The close events of the run that reach a socket of \<open>sid\<close> that is not closed yet.\<close>

fun is_close_of :: "string \<Rightarrow> World \<Rightarrow> event \<Rightarrow> bool" where
  "is_close_of sid w (EvClose k) =
     (k < length (sockets w) \<and> ready w k \<noteq> Some CLOSED \<and> sock_sid (sockets w ! k) = sid)"
| "is_close_of sid w e = False"

fun closes :: "json_parse \<Rightarrow> string \<Rightarrow> World \<Rightarrow> event list \<Rightarrow> nat" where
  "closes parse sid w [] = 0"
| "closes parse sid w (e # es) =
     (if is_close_of sid w e then 1 else 0) + closes parse sid (step parse e w) es"

text \<open>A transport is live when it is open or connecting.\<close>

definition live :: "World \<Rightarrow> nat \<Rightarrow> bool" where
  "live w k \<longleftrightarrow> ready w k = Some OPEN \<or> ready w k = Some CONNECTING"

text \<open>The linear backoff: the delays of attempts \<open>a + 1\<close> to \<open>b\<close>, each for \<open>sid\<close>.\<close>

definition backoff :: "string \<Rightarrow> nat \<Rightarrow> nat \<Rightarrow> (int \<times> string) list" where
  "backoff sid a b = map (\<lambda>k. (1000 * int k, sid)) [Suc a..<Suc b]"

text \<open>The invariant of the hook: a live transport is the one \<open>wsRef\<close> holds.\<close>

definition one_live :: "World \<Rightarrow> bool" where
  "one_live w \<longleftrightarrow> (\<forall>k. live w k \<longrightarrow> wsRef w = Some k)"

text \<open>
  For the examples: a session \<open>s1\<close> that is running (the submit handler sets the status)
  and whose socket has opened.
\<close>

definition running_world :: World where
  "running_world =
     run parse_sample [EvRender (Some ''s1'') True, EvOpen 0]
       (initialWorld\<lparr>store := setStatus Running initialState\<rparr>)"

section \<open>Properties\<close>

subsection \<open>Rounding\<close>

declare bit_length.simps [simp del]

lemma bit_length_le: "n < 2 ^ k \<Longrightarrow> bit_length n \<le> k"
proof (induction k arbitrary: n)
  case 0
  then show ?case by (simp add: bit_length.simps)
next
  case (Suc k)
  show ?case
  proof (cases "n = 0")
    case True
    then show ?thesis by (simp add: bit_length.simps)
  next
    case False
    from Suc.prems have "n div 2 < 2 ^ k" by simp
    from Suc.IH [OF this] False show ?thesis by (subst bit_length.simps) simp
  qed
qed

lemma bit_length_gt: "2 ^ k \<le> n \<Longrightarrow> k < bit_length n"
proof (induction k arbitrary: n)
  case 0
  then have "n \<noteq> 0" by auto
  then show ?case by (subst bit_length.simps) simp
next
  case (Suc k)
  have "(0::nat) < 2 ^ Suc k" by simp
  with Suc.prems have "n \<noteq> 0" by linarith
  from Suc.prems have "2 ^ k \<le> n div 2" by simp
  from Suc.IH [OF this] \<open>n \<noteq> 0\<close> show ?case by (subst bit_length.simps) simp
qed

lemma bit_length_eq: "2 ^ k \<le> n \<Longrightarrow> n < 2 ^ Suc k \<Longrightarrow> bit_length n = Suc k"
  using bit_length_le [of n "Suc k"] bit_length_gt [of k n] by simp

text \<open>Integers up to \<open>2^53\<close> in magnitude are doubles.\<close>

lemma double_round_exact:
  assumes "\<bar>x\<bar> \<le> 9007199254740992"
  shows "double_round x = Some x"
proof (cases "\<bar>x\<bar> < 9007199254740992")
  case True
  then have "nat \<bar>x\<bar> < 2 ^ 53" by simp
  from bit_length_le [OF this] show ?thesis by (simp add: double_round_def Let_def)
next
  case False
  with assms have x: "\<bar>x\<bar> = 9007199254740992" by simp
  then have m: "nat \<bar>x\<bar> = 9007199254740992" by simp
  have "bit_length 9007199254740992 = Suc 53" by (rule bit_length_eq) simp_all
  with m x show ?thesis
    by (simp add: double_round_def Let_def sgn_if abs_if split: if_splits)
qed

lemma js_add_exact: "\<bar>a + b\<bar> \<le> 9007199254740992 \<Longrightarrow> js_add a b = Some (a + b)"
  by (simp add: js_add_def double_round_exact)

text \<open>The successor of \<open>2^53\<close> is not a double: the sum is \<open>2^53\<close> again.\<close>

lemma js_add_rounds: "js_add 9007199254740992 1 = Some 9007199254740992"
proof -
  have "bit_length 9007199254740993 = Suc 53" by (rule bit_length_eq) simp_all
  then show ?thesis by (simp add: js_add_def double_round_def Let_def)
qed

subsection \<open>Reading and writing arrays\<close>

lemma js_get_spread:
  "js_get (spread a) i = (if is_array_index i then js_get a i else None)"
  by (simp add: js_get_def spread_def)

lemma spread_spread: "spread (spread a) = spread a"
  by (simp add: spread_def)

lemma js_get_set_same: "js_get (js_set a i v) i = Some v"
  by (simp add: js_get_def js_set_def nth_append)

lemma js_get_set_other: "j \<noteq> i \<Longrightarrow> js_get (js_set a i v) j = js_get a j"
  by (auto simp add: js_get_def js_set_def nth_append is_array_index_def nth_Cons' nat_eq_iff)

lemma js_get_set: "js_get (js_set a i v) j = (if j = i then Some v else js_get a j)"
  by (simp add: js_get_set_same js_get_set_other)

lemma spread_set_index:
  "is_array_index i \<Longrightarrow> spread (js_set (spread a) i v) = js_set (spread a) i v"
  by (simp add: spread_def js_set_def)

subsection \<open>The dispatcher, case by case\<close>

lemma dispatch_session_started:
  "ev_type d = ''session_started'' \<Longrightarrow> dispatch d w = w\<lparr>store := setStatus Running (store w)\<rparr>"
  by (simp add: dispatch_def)

lemma dispatch_generation_start:
  "ev_type d = ''generation_start'' \<Longrightarrow>
   dispatch d w = w\<lparr>store := startGeneration (ev_iteration d) (store w)\<rparr>"
  by (simp add: dispatch_def)

lemma dispatch_generation_chunk:
  "ev_type d = ''generation_chunk'' \<Longrightarrow>
   dispatch d w = w\<lparr>store := appendGenerationChunk (ev_content d) (store w)\<rparr>"
  by (simp add: dispatch_def)

lemma dispatch_generation_complete:
  "ev_type d = ''generation_complete'' \<Longrightarrow>
   dispatch d w = w\<lparr>store := completeGeneration (ev_content d) (store w)\<rparr>"
  by (simp add: dispatch_def)

lemma dispatch_critique_start:
  "ev_type d = ''critique_start'' \<Longrightarrow> dispatch d w = w\<lparr>store := startCritique (store w)\<rparr>"
  by (simp add: dispatch_def)

lemma dispatch_critique_complete:
  "ev_type d = ''critique_complete'' \<Longrightarrow>
   dispatch d w =
     (case ev_critique d of Some c \<Rightarrow> w\<lparr>store := completeCritique c (store w)\<rparr> | None \<Rightarrow> w)"
  by (simp add: dispatch_def)

lemma dispatch_session_complete:
  "ev_type d = ''session_complete'' \<Longrightarrow>
   dispatch d w =
     w\<lparr>store := completeSession (ev_content d) (case ev_score d of ScoreNumber sc \<Rightarrow> sc | _ \<Rightarrow> 0) (store w),
       isIntentionalCloseRef := True\<rparr>"
  by (simp add: dispatch_def)

lemma dispatch_unknown: "ev_type d \<notin> set known_types \<Longrightarrow> dispatch d w = w"
  by (simp add: dispatch_def known_types_def)

text \<open>What the dispatcher and the message handler leave alone.\<close>

lemma dispatch_frame:
  "sockets (dispatch d w) = sockets w" "wsRef (dispatch d w) = wsRef w"
  "connectedSessionRef (dispatch d w) = connectedSessionRef w"
  "reconnectAttempts (dispatch d w) = reconnectAttempts w"
  "timeouts (dispatch d w) = timeouts w" "fired (dispatch d w) = fired w"
  "calls (dispatch d w) = calls w"
  by (simp_all add: dispatch_def Let_def console_error_def split: option.splits score_field.splits)

lemma onmessage_frame:
  assumes "ws_onmessage parse payload w = Inr w'"
  shows "sockets w' = sockets w" "wsRef w' = wsRef w"
    "connectedSessionRef w' = connectedSessionRef w"
    "reconnectAttempts w' = reconnectAttempts w"
    "timeouts w' = timeouts w" "fired w' = fired w" "calls w' = calls w"
  using assms
  by (auto simp add: ws_onmessage_def onmessage_try_def dispatch_frame console_log_def
      console_error_def split: sum.splits json.splits)

lemma onmessage_total: "\<exists>w'. ws_onmessage parse payload w = Inr w'"
  by (simp add: ws_onmessage_def split: sum.splits)

lemma connect_frame:
  "store (connect sid w) = store w" "reconnectAttempts (connect sid w) = reconnectAttempts w"
  "timeouts (connect sid w) = timeouts w"
  by (simp_all add: connect_def Let_def createReasoningWebSocket_def console_log_def)

lemma set_ready_frame:
  "store (set_ready k r w) = store w" "wsRef (set_ready k r w) = wsRef w"
  "connectedSessionRef (set_ready k r w) = connectedSessionRef w"
  "isIntentionalCloseRef (set_ready k r w) = isIntentionalCloseRef w"
  "reconnectAttempts (set_ready k r w) = reconnectAttempts w"
  "timeouts (set_ready k r w) = timeouts w" "calls (set_ready k r w) = calls w"
  "length (sockets (set_ready k r w)) = length (sockets w)"
  by (simp_all add: set_ready_def)

text \<open>Unfolding the hook on a concrete world.\<close>

lemmas hook_defs = connect_def effect_cleanup_def ws_onopen_def ws_onclose_def
  ws_onerror_def ws_close_def set_ready_def ready_def ws_readyState_def createReasoningWebSocket_def
  setTimeout_def console_log_def console_error_def maxReconnectAttempts_def setWsConnected_def
  setStatus_def initialWorld_def Let_def unmountCleanup_def

lemmas store_defs = initialState_def defaultConfig_def
  startGeneration_def appendGenerationChunk_def completeGeneration_def startCritique_def
  appendCritiqueChunk_def completeCritique_def completeIteration_def completeSession_def
  getRotatedModels_def roster_at_def js_rem_def js_add_exact
  js_get_def js_set_def spread_def js_empty_def is_array_index_def Let_def

lemma running_world_eq:
  "running_world =
     \<lparr>store = initialState\<lparr>status := Running, wsConnected := True\<rparr>,
      sockets = [\<lparr>sock_sid = ''s1'', readyState = OPEN\<rparr>],
      wsRef = Some 0, connectedSessionRef = Some ''s1'', isIntentionalCloseRef = False,
      reconnectAttempts = 0, timeouts = [], fired = [], calls = [WsCreate 0 ''s1''],
      console = [ConsoleLog ''Connecting WebSocket for session:'', ConsoleLog ''WebSocket connected'']\<rparr>"
  by (simp add: running_world_def hook_defs)

subsection \<open>The streaming scenario\<close>

text \<open>
  Claim C1. The events \<open>session_started\<close>, \<open>generation_start\<close> for iteration 0, the chunks
  \<open>Hel\<close> and \<open>lo\<close>, \<open>generation_complete\<close> with \<open>Hello\<close>, \<open>critique_start\<close>,
  \<open>critique_complete\<close> with a critique of score 7.5 and \<open>session_complete\<close> with \<open>Hello\<close> and
  7.5, dispatched in this order from the initial store, whatever their other fields hold,
  leave the store in its initial state except for: one iteration, number 0, with generation
  \<open>Hello\<close>, that critique, both phase flags false and the models of the default roster;
  status completed; final output \<open>Hello\<close>; final score 7.5.
\<close>

theorem scenario_hello:
  "store (dispatch_all
      [e1\<lparr>ev_type := ''session_started''\<rparr>,
       e2\<lparr>ev_type := ''generation_start'', ev_iteration := 0\<rparr>,
       e3\<lparr>ev_type := ''generation_chunk'', ev_content := ''Hel''\<rparr>,
       e4\<lparr>ev_type := ''generation_chunk'', ev_content := ''lo''\<rparr>,
       e5\<lparr>ev_type := ''generation_complete'', ev_content := ''Hello''\<rparr>,
       e6\<lparr>ev_type := ''critique_start''\<rparr>,
       e7\<lparr>ev_type := ''critique_complete'', ev_critique := Some (k\<lparr>score := 7.5\<rparr>)\<rparr>,
       e8\<lparr>ev_type := ''session_complete'', ev_content := ''Hello'', ev_score := ScoreNumber 7.5\<rparr>]
      initialWorld)
   = initialState
       \<lparr>status := Completed,
        iterations :=
          \<lparr>elems =
             [Some \<lparr>number = 0,
                    generation = ''Hello'',
                    generation_model = Some ''anthropic/claude-3.7-sonnet'',
                    critique = Some (k\<lparr>score := 7.5\<rparr>),
                    critique_model = Some ''openai/o3'',
                    isGenerating = False,
                    isCritiquing = False\<rparr>],
           props = []\<rparr>,
        finalOutput := Some ''Hello'',
        finalScore := Some 7.5\<rparr>"
  by (simp add: dispatch_session_started dispatch_generation_start dispatch_generation_chunk
      dispatch_generation_complete dispatch_critique_start dispatch_critique_complete
      dispatch_session_complete Let_def
      initialWorld_def initialState_def defaultConfig_def setStatus_def
      startGeneration_def appendGenerationChunk_def completeGeneration_def startCritique_def
      completeCritique_def completeSession_def getRotatedModels_def roster_at_def js_rem_def js_add_exact
      js_get_def js_set_def spread_def js_empty_def is_array_index_def)

subsection \<open>Chunks and the final content\<close>

lemma currentOpen_index: "currentOpen s = Some it \<Longrightarrow> is_array_index (currentIteration s)"
  by (simp add: currentOpen_def js_get_spread split: if_splits)

lemma chunk_open:
  assumes "currentOpen s = Some it"
  shows "currentOpen (appendGenerationChunk c s) = Some (it\<lparr>generation := streamingContent s @ c\<rparr>)"
    and "js_get (iterations (appendGenerationChunk c s)) (currentIteration s)
           = Some (it\<lparr>generation := streamingContent s @ c\<rparr>)"
    and "currentIteration (appendGenerationChunk c s) = currentIteration s"
    and "streamingContent (appendGenerationChunk c s) = streamingContent s @ c"
  using assms currentOpen_index [OF assms]
  by (simp_all add: currentOpen_def appendGenerationChunk_def Let_def js_get_spread js_get_set)

lemma chunks_open:
  "currentOpen s = Some it \<Longrightarrow>
   \<exists>g. currentOpen (acts (map AppendGenerationChunk chunks) s) = Some (it\<lparr>generation := g\<rparr>)
     \<and> currentIteration (acts (map AppendGenerationChunk chunks) s) = currentIteration s"
proof (induction chunks arbitrary: s it)
  case Nil
  then have "currentOpen s = Some (it\<lparr>generation := generation it\<rparr>)" by simp
  then show ?case by (intro exI [of _ "generation it"]) simp
next
  case (Cons c chunks)
  let ?s1 = "appendGenerationChunk c s"
  from chunk_open [OF Cons.prems]
  have o: "currentOpen ?s1 = Some (it\<lparr>generation := streamingContent s @ c\<rparr>)"
    and i: "currentIteration ?s1 = currentIteration s" by simp_all
  from Cons.IH [OF o] obtain g where
    "currentOpen (acts (map AppendGenerationChunk chunks) ?s1)
       = Some (it\<lparr>generation := streamingContent s @ c, generation := g\<rparr>)"
    "currentIteration (acts (map AppendGenerationChunk chunks) ?s1) = currentIteration ?s1"
    by auto
  then show ?case using i by (intro exI [of _ g]) simp
qed

lemma complete_open:
  assumes "currentOpen s = Some it"
  shows "currentOpen (completeGeneration c s) = Some (it\<lparr>generation := c, isGenerating := False\<rparr>)"
    and "js_get (iterations (completeGeneration c s)) (currentIteration s)
           = Some (it\<lparr>generation := c, isGenerating := False\<rparr>)"
    and "currentIteration (completeGeneration c s) = currentIteration s"
  using assms currentOpen_index [OF assms]
  by (simp_all add: currentOpen_def completeGeneration_def Let_def js_get_spread js_get_set)

text \<open>
  For an iteration that is an element of the array: after any sequence of chunks,
  \<open>completeGeneration\<close> with content \<open>c\<close> leaves it with generation \<open>c\<close>, whatever the
  chunks accumulated, and with \<open>isGenerating\<close> false; its other fields and the current
  index are as before.
\<close>

theorem complete_overrides_chunks:
  assumes "currentOpen s = Some it"
  shows "js_get (iterations (completeGeneration c (acts (map AppendGenerationChunk chunks) s)))
           (currentIteration s)
           = Some (it\<lparr>generation := c, isGenerating := False\<rparr>)
       \<and> currentIteration (completeGeneration c (acts (map AppendGenerationChunk chunks) s))
           = currentIteration s"
proof -
  let ?s1 = "acts (map AppendGenerationChunk chunks) s"
  from chunks_open [OF assms] obtain g where
    o: "currentOpen ?s1 = Some (it\<lparr>generation := g\<rparr>)" and i: "currentIteration ?s1 = currentIteration s"
    by blast
  from complete_open [OF o, of c] i show ?thesis by simp
qed

text \<open>The chunks \<open>ab\<close> and \<open>c\<close>, then \<open>xyz\<close>: the generation is \<open>xyz\<close>.\<close>

theorem complete_overrides_chunks_witness:
  "js_get (iterations (completeGeneration ''xyz''
       (acts (map AppendGenerationChunk [''ab'', ''c'']) (startGeneration 0 initialState)))) 0
     = Some \<lparr>number = 0, generation = ''xyz'',
             generation_model = Some ''anthropic/claude-3.7-sonnet'',
             critique = None, critique_model = Some ''openai/o3'',
             isGenerating = False, isCritiquing = False\<rparr>"
proof -
  have "currentOpen (startGeneration 0 initialState)
          = Some \<lparr>number = 0, generation = [],
             generation_model = Some ''anthropic/claude-3.7-sonnet'',
             critique = None, critique_model = Some ''openai/o3'',
             isGenerating = True, isCritiquing = False\<rparr>"
    and "currentIteration (startGeneration 0 initialState) = 0"
    by (simp_all add: currentOpen_def Let_def initialState_def defaultConfig_def
      startGeneration_def getRotatedModels_def roster_at_def js_rem_def js_add_exact
      js_get_def js_set_def spread_def js_empty_def is_array_index_def)
  from complete_overrides_chunks [OF this(1), of "''xyz''" "[''ab'', ''c'']"] this(2)
  show ?thesis by simp
qed

text \<open>
  Claim C2 does not hold for the council round. \<open>generation_start\<close> for iteration \<open>-1\<close>
  stores the iteration under the key \<open>-1\<close>, which is not an index of the array: the state
  holds it, open, with \<open>isGenerating\<close> true, but the copy that every later action takes
  leaves it behind. After the chunks \<open>ab\<close> and \<open>c\<close> and \<open>generation_complete\<close> with \<open>xyz\<close>
  the store holds no iteration at all: nothing has the generation \<open>xyz\<close>, and the open
  iteration is lost with its flag.
\<close>

theorem council_iteration_lost:
  "js_get (iterations (acts [StartGeneration (- 1)] initialState)) (- 1)
     = Some \<lparr>number = - 1, generation = [],
             generation_model = None,
             critique = None, critique_model = Some ''anthropic/claude-3.7-sonnet'',
             isGenerating = True, isCritiquing = False\<rparr>
   \<and> currentIteration (acts [StartGeneration (- 1)] initialState) = - 1
   \<and> js_get (iterations (acts [StartGeneration (- 1), AppendGenerationChunk ''ab'',
                              AppendGenerationChunk ''c'', CompleteGeneration ''xyz''] initialState))
        (- 1) = None
   \<and> iterations (acts [StartGeneration (- 1), AppendGenerationChunk ''ab'',
                       AppendGenerationChunk ''c'', CompleteGeneration ''xyz''] initialState)
     = js_empty"
  by (simp add: store_defs)

text \<open>
  After a \<open>generation_start\<close> that created the iteration, followed by chunks only, the
  generation and the streaming buffer are both the concatenation of the chunks.
\<close>

lemma fresh_generation:
  assumes "is_array_index i" and "js_get (iterations s0) i = None"
  shows "\<exists>it. currentOpen (acts (map AppendGenerationChunk cs) (startGeneration i s0)) = Some it
           \<and> generation it = concat cs
           \<and> streamingContent (acts (map AppendGenerationChunk cs) (startGeneration i s0)) = concat cs"
proof -
  have "\<exists>it. currentOpen (acts (map AppendGenerationChunk cs) s) = Some it
           \<and> generation it = g @ concat cs
           \<and> streamingContent (acts (map AppendGenerationChunk cs) s) = g @ concat cs"
    if "currentOpen s = Some it0" "generation it0 = g" "streamingContent s = g" for s it0 g
    using that
  proof (induction cs arbitrary: s it0 g)
    case Nil
    then show ?case by simp
  next
    case (Cons c cs)
    from chunk_open [OF Cons.prems(1), of c] Cons.prems(2,3)
    have "currentOpen (appendGenerationChunk c s) = Some (it0\<lparr>generation := g @ c\<rparr>)"
      and "streamingContent (appendGenerationChunk c s) = g @ c" by simp_all
    from Cons.IH [OF this(1) _ this(2)] show ?case by simp
  qed
  moreover have "\<exists>it0. currentOpen (startGeneration i s0) = Some it0 \<and> generation it0 = []"
    using assms
    by (simp add: currentOpen_def startGeneration_def Let_def js_get_spread js_get_set spread_set_index)
  moreover have "streamingContent (startGeneration i s0) = []"
    by (simp add: startGeneration_def Let_def)
  ultimately show ?thesis by fastforce
qed

text \<open>
  Claim C6, amended. In every state whose current iteration is in the array and has the
  streaming buffer as its generation (as it has after a \<open>generation_start\<close> that created
  the iteration, followed by \<open>generation_chunk\<close> events only), a chunk \<open>c\<close> sets that
  iteration's generation to its previous value with \<open>c\<close> appended, and changes nothing
  else of the iteration.
\<close>

theorem chunk_appends:
  assumes "currentOpen s = Some it" and "generation it = streamingContent s"
  shows "js_get (iterations (appendGenerationChunk c s)) (currentIteration s)
           = Some (it\<lparr>generation := generation it @ c\<rparr>)
       \<and> currentOpen (appendGenerationChunk c s) = Some (it\<lparr>generation := generation it @ c\<rparr>)
       \<and> streamingContent (appendGenerationChunk c s) = generation it @ c
       \<and> currentIteration (appendGenerationChunk c s) = currentIteration s"
  using chunk_open [OF assms(1), of c] assms(2) by simp

text \<open>After \<open>Hel\<close>, the chunk \<open>lo\<close> gives \<open>Hello\<close>.\<close>

theorem chunk_appends_witness:
  "js_get (iterations (acts [StartGeneration 0, AppendGenerationChunk ''Hel'', AppendGenerationChunk ''lo''] initialState)) 0
    = Some \<lparr>number = 0, generation = ''Hello'',
             generation_model = Some ''anthropic/claude-3.7-sonnet'',
             critique = None, critique_model = Some ''openai/o3'',
             isGenerating = True, isCritiquing = False\<rparr>"
proof -
  let ?s = "acts [StartGeneration 0, AppendGenerationChunk ''Hel''] initialState"
  have "currentOpen ?s
          = Some \<lparr>number = 0, generation = ''Hel'',
             generation_model = Some ''anthropic/claude-3.7-sonnet'',
             critique = None, critique_model = Some ''openai/o3'',
             isGenerating = True, isCritiquing = False\<rparr>"
    and "streamingContent ?s = ''Hel''" and "currentIteration ?s = 0"
    by (simp_all add: currentOpen_def Let_def initialState_def defaultConfig_def
      startGeneration_def appendGenerationChunk_def getRotatedModels_def roster_at_def js_rem_def js_add_exact
      js_get_def js_set_def spread_def js_empty_def is_array_index_def)
  from chunk_appends [OF this(1), of "''lo''"] this(2,3)
  show ?thesis by simp
qed

text \<open>
  A second \<open>generation_start\<close> for iteration 0, delivered while it is open with generation
  \<open>ab\<close>, empties the buffer and keeps the generation; the next chunk \<open>c\<close> then replaces
  \<open>ab\<close> by \<open>c\<close>.
\<close>

theorem chunk_replaces_counterexample:
  "map_option generation (currentOpen
      (acts [StartGeneration 0, AppendGenerationChunk ''ab'', StartGeneration 0] initialState))
     = Some ''ab''
   \<and> map_option isGenerating (currentOpen
      (acts [StartGeneration 0, AppendGenerationChunk ''ab'', StartGeneration 0] initialState))
     = Some True
   \<and> map_option generation (currentOpen
      (acts [StartGeneration 0, AppendGenerationChunk ''ab'', StartGeneration 0,
             AppendGenerationChunk ''c''] initialState))
     = Some ''c''"
  by (simp add: currentOpen_def Let_def initialState_def defaultConfig_def
      startGeneration_def appendGenerationChunk_def getRotatedModels_def roster_at_def js_rem_def js_add_exact
      js_get_def js_set_def spread_def js_empty_def is_array_index_def)

subsection \<open>Role rotation\<close>

lemma js_rem_nonneg: "0 \<le> i \<Longrightarrow> js_rem i 3 = i mod 3"
  by (simp add: js_rem_def sgn_if)

lemma roster_at_3: "0 \<le> k \<Longrightarrow> k < 3 \<Longrightarrow> roster_at [a, b, c] k = Some ([a, b, c] ! nat k)"
  by (simp add: roster_at_def)

text \<open>
  Claim C3, amended. For every roster and every iteration index \<open>i\<close> with \<open>0 \<le> i < 2^53\<close>:
  the generator is the model at index \<open>i mod 3\<close> and the critic the model at index
  \<open>(i + 1) mod 3\<close>; the slot shown as generator, critic and refiner by \<open>ModelTriad\<close> is
  \<open>i mod 3\<close>, \<open>(i + 1) mod 3\<close> and \<open>(i + 2) mod 3\<close>, three different slots; and when
  \<open>i + 3\<close> is below \<open>2^53\<close> too, both assignments are the same at \<open>i\<close> and \<open>i + 3\<close>.
\<close>

theorem rotation_nonneg:
  assumes "0 \<le> i" and "i < 2 ^ 53"
  shows "generator (getRotatedModels cfg i)
           = Some ([generator_model cfg, critic_model cfg, refiner_model cfg] ! nat (i mod 3))
       \<and> critic (getRotatedModels cfg i)
           = Some ([generator_model cfg, critic_model cfg, refiner_model cfg] ! nat ((i + 1) mod 3))
       \<and> slot_role i (i mod 3) = Generator
       \<and> slot_role i ((i + 1) mod 3) = Critic
       \<and> slot_role i ((i + 2) mod 3) = Refiner
       \<and> distinct [i mod 3, (i + 1) mod 3, (i + 2) mod 3]
       \<and> (i + 3 < 2 ^ 53 \<longrightarrow>
            getRotatedModels cfg (i + 3) = getRotatedModels cfg i
            \<and> slot_role (i + 3) = slot_role i)"
proof -
  from assms have a1: "js_add i 1 = Some (i + 1)" by (intro js_add_exact) simp
  have r0: "js_rem i 3 = i mod 3" and r1: "js_rem (i + 1) 3 = (i + 1) mod 3"
    using assms by (simp_all add: js_rem_nonneg)
  have c1: "map_option (\<lambda>n. js_rem n 3) (js_add i 1) = Some ((i + 1) mod 3)"
    by (simp add: a1 r1)
  have d: "distinct [i mod 3, (i + 1) mod 3, (i + 2) mod 3]"
    by (simp; presburger)
  have g: "generator (getRotatedModels cfg i)
           = Some ([generator_model cfg, critic_model cfg, refiner_model cfg] ! nat (i mod 3))"
    unfolding getRotatedModels_def Let_def r0 c1 by (simp add: roster_at_3)
  have c: "critic (getRotatedModels cfg i)
           = Some ([generator_model cfg, critic_model cfg, refiner_model cfg] ! nat ((i + 1) mod 3))"
    unfolding getRotatedModels_def Let_def r0 c1 by (simp add: roster_at_3)
  have s0: "slot_role i (i mod 3) = Generator"
    unfolding slot_role_def Let_def r0 c1 by simp
  have s1: "slot_role i ((i + 1) mod 3) = Critic"
    unfolding slot_role_def Let_def r0 c1 using d by simp
  have s2: "slot_role i ((i + 2) mod 3) = Refiner"
    unfolding slot_role_def Let_def r0 c1 using d by simp
  have p: "getRotatedModels cfg (i + 3) = getRotatedModels cfg i \<and> slot_role (i + 3) = slot_role i"
    if b: "i + 3 < 2 ^ 53"
  proof -
    from assms b have a4: "js_add (i + 3) 1 = Some (i + 3 + 1)" by (intro js_add_exact) simp
    have "js_rem (i + 3) 3 = (i + 3) mod 3" and "js_rem (i + 3 + 1) 3 = (i + 3 + 1) mod 3"
      using assms by (simp_all only: js_rem_nonneg)
    moreover have "(i + 3) mod 3 = i mod 3" and "(i + 3 + 1) mod 3 = (i + 1) mod 3"
      by presburger+
    ultimately have r3: "js_rem (i + 3) 3 = i mod 3"
      and r4: "js_rem (i + 3 + 1) 3 = (i + 1) mod 3"
      by simp_all
    have c4: "map_option (\<lambda>n. js_rem n 3) (js_add (i + 3) 1) = Some ((i + 1) mod 3)"
      by (simp only: a4 r4 option.map)
    have "getRotatedModels cfg (i + 3) = getRotatedModels cfg i"
      unfolding getRotatedModels_def Let_def r0 c1 r3 c4 by simp
    moreover have "slot_role (i + 3) = slot_role i"
      unfolding slot_role_def Let_def r0 c1 r3 c4 by (rule ext) simp
    ultimately show ?thesis by simp
  qed
  from g c s0 s1 s2 d p show ?thesis by blast
qed

text \<open>At iteration 4 of the default roster the second model generates and the third criticises.\<close>

theorem rotation_nonneg_witness:
  "generator (getRotatedModels defaultConfig 4) = Some ''openai/o3''
   \<and> critic (getRotatedModels defaultConfig 4) = Some ''anthropic/claude-opus-4.5''
   \<and> slot_role 4 0 = Refiner
   \<and> getRotatedModels defaultConfig (4 + 3) = getRotatedModels defaultConfig 4"
proof -
  have h: "(0::int) \<le> 4" "(4::int) < 2 ^ 53" "(4::int) + 3 < 2 ^ 53" by simp_all
  from rotation_nonneg [OF h(1,2), of defaultConfig] h(3) show ?thesis
    by (simp add: defaultConfig_def)
qed

text \<open>
  At iteration \<open>-1\<close>, the council round, \<^verbatim>\<open>-1 % 3\<close> is \<open>-1\<close>: no model is the generator, the
  result differs from the one at iteration 2, and two slots are shown as refiner. At
  iteration \<open>2^53\<close> the sum \<^verbatim>\<open>iteration + 1\<close> rounds back to \<open>2^53\<close>: the third model is
  generator and critic at once. And from \<open>2^53 - 3\<close> to \<open>2^53\<close> the assignment changes.
\<close>

theorem rotation_negative_counterexample:
  "generator (getRotatedModels defaultConfig (- 1)) = None
   \<and> getRotatedModels defaultConfig (- 1) \<noteq> getRotatedModels defaultConfig (- 1 + 3)
   \<and> slot_role (- 1) 0 = Critic \<and> slot_role (- 1) 1 = Refiner \<and> slot_role (- 1) 2 = Refiner
   \<and> generator (getRotatedModels defaultConfig (2 ^ 53)) = Some ''anthropic/claude-opus-4.5''
   \<and> critic (getRotatedModels defaultConfig (2 ^ 53)) = Some ''anthropic/claude-opus-4.5''
   \<and> getRotatedModels defaultConfig (2 ^ 53 - 3 + 3) \<noteq> getRotatedModels defaultConfig (2 ^ 53 - 3)"
  by (simp add: getRotatedModels_def slot_role_def js_rem_def roster_at_def defaultConfig_def
      js_add_exact js_add_rounds)

subsection \<open>Phase flags and critiques\<close>

lemma flag_count_fc: "flag_count s = array_flags (iterations s)"
  by (simp add: flag_count_def array_flags_def)

lemma fc_spread: "array_flags (spread a) \<le> array_flags a"
  by (simp add: array_flags_def spread_def)

lemma fc_spread_props: "array_flags (spread a) = sum_list (map flags_opt (elems a))"
  by (simp add: array_flags_def spread_def)

lemma sum_list_map_update:
  fixes f :: "'a \<Rightarrow> nat"
  shows "i < length xs \<Longrightarrow> sum_list (map f (xs[i := v])) + f (xs ! i) = sum_list (map f xs) + f v"
proof (induction xs arbitrary: i)
  case Nil
  then show ?case by simp
next
  case (Cons x xs)
  then show ?case by (cases i) auto
qed

lemma fc_set_present:
  assumes "is_array_index i" and "js_get a i = Some it"
  shows "array_flags (js_set a i v) + flags it = array_flags a + flags v"
proof -
  from assms have l: "nat i < length (elems a)" and e: "elems a ! nat i = Some it"
    by (simp_all add: js_get_def split: if_splits)
  from sum_list_map_update [OF l, of flags_opt "Some v"] e
  have "sum_list (map flags_opt ((elems a)[nat i := Some v])) + flags it
          = sum_list (map flags_opt (elems a)) + flags v"
    by (simp add: flags_opt_def)
  with assms(1) l show ?thesis by (simp add: array_flags_def js_set_def)
qed

lemma fc_set_absent:
  assumes "js_get a i = None"
  shows "array_flags (js_set a i v) = array_flags a + flags v"
proof (cases "is_array_index i")
  case False
  then show ?thesis by (simp add: array_flags_def js_set_def)
next
  case True
  show ?thesis
  proof (cases "nat i < length (elems a)")
    case l: True
    with True assms have e: "elems a ! nat i = None" by (simp add: js_get_def)
    from sum_list_map_update [OF l, of flags_opt "Some v"] e
    have "sum_list (map flags_opt ((elems a)[nat i := Some v]))
          = sum_list (map flags_opt (elems a)) + flags v"
      by (simp add: flags_opt_def)
    with True l show ?thesis by (simp add: array_flags_def js_set_def)
  next
    case False
    have "sum_list (map flags_opt (replicate n None)) = 0" for n
      by (induction n) (simp_all add: flags_opt_def)
    with True False show ?thesis by (simp add: array_flags_def js_set_def flags_opt_def)
  qed
qed

lemma flags_le_fc: "is_array_index i \<Longrightarrow> js_get a i = Some it \<Longrightarrow> flags it \<le> array_flags a"
  using fc_set_present [of i a it "it\<lparr>isGenerating := False, isCritiquing := False\<rparr>"]
  by (simp add: flags_def)

text \<open>An action that writes the current iteration without raising its flags.\<close>

lemma fc_write_current:
  assumes "\<And>it. flags (f it) \<le> flags it"
  shows "array_flags (case js_get (spread a) i of None \<Rightarrow> spread a | Some it \<Rightarrow> js_set (spread a) i (f it)) \<le> array_flags a"
proof (cases "js_get (spread a) i")
  case None
  then show ?thesis by (simp add: fc_spread)
next
  case (Some it)
  then have idx: "is_array_index i" by (simp add: js_get_spread split: if_splits)
  from fc_set_present [OF idx Some, of "f it"] assms [of it] fc_spread [of a]
  show ?thesis using Some by simp
qed

lemma flag_count_appendGenerationChunk: "flag_count (appendGenerationChunk c s) \<le> flag_count s"
  using fc_write_current [of "\<lambda>it. it\<lparr>generation := streamingContent s @ c\<rparr>" "iterations s" "currentIteration s"]
  by (simp add: flag_count_fc appendGenerationChunk_def Let_def flags_def)

lemma flag_count_completeGeneration: "flag_count (completeGeneration c s) \<le> flag_count s"
  using fc_write_current [of "\<lambda>it. it\<lparr>generation := c, isGenerating := False\<rparr>" "iterations s" "currentIteration s"]
  by (simp add: flag_count_fc completeGeneration_def Let_def flags_def)

lemma flag_count_completeCritique: "flag_count (completeCritique k s) \<le> flag_count s"
  using fc_write_current [of "\<lambda>it. it\<lparr>critique := Some k, isCritiquing := False\<rparr>" "iterations s" "currentIteration s"]
  by (simp add: flag_count_fc completeCritique_def Let_def flags_def)

lemma flag_count_completeIteration: "flag_count (completeIteration c sc k s) \<le> flag_count s"
  using fc_write_current [of "\<lambda>it. it\<lparr>generation := c, critique := Some k, isGenerating := False, isCritiquing := False\<rparr>" "iterations s" "currentIteration s"]
  by (simp add: flag_count_fc completeIteration_def Let_def flags_def)

lemma flag_count_startGeneration:
  assumes "flag_count s = 0"
  shows "flag_count (startGeneration i s) = 1"
proof (cases "js_get (spread (iterations s)) i")
  case None
  from assms fc_spread [of "iterations s"] have z: "array_flags (spread (iterations s)) = 0"
    by (simp add: flag_count_fc)
  from None show ?thesis
    by (simp add: flag_count_fc startGeneration_def Let_def fc_set_absent z flags_def)
next
  case (Some it)
  then have idx: "is_array_index i" by (simp add: js_get_spread split: if_splits)
  from assms fc_spread [of "iterations s"] have z: "array_flags (spread (iterations s)) = 0"
    by (simp add: flag_count_fc)
  with flags_le_fc [OF idx Some] have "flags it = 0" by simp
  then have f: "flags (it\<lparr>isGenerating := True\<rparr>) = 1"
    by (simp add: flags_def split: if_splits)
  from fc_set_present [OF idx Some, of "it\<lparr>isGenerating := True\<rparr>"] z f \<open>flags it = 0\<close>
  show ?thesis using Some
    by (simp add: flag_count_fc startGeneration_def Let_def)
qed

lemma flag_count_startCritique:
  assumes "flag_count s = 0"
  shows "flag_count (startCritique s) \<le> 1"
proof (cases "js_get (spread (iterations s)) (currentIteration s)")
  case None
  from assms fc_spread [of "iterations s"] have z: "array_flags (spread (iterations s)) = 0"
    by (simp add: flag_count_fc)
  from None show ?thesis
    by (simp add: flag_count_fc startCritique_def Let_def z)
next
  case (Some it)
  then have idx: "is_array_index (currentIteration s)" by (simp add: js_get_spread split: if_splits)
  from assms fc_spread [of "iterations s"] have z: "array_flags (spread (iterations s)) = 0"
    by (simp add: flag_count_fc)
  with flags_le_fc [OF idx Some] have "flags it = 0" by simp
  then have f: "flags (it\<lparr>isCritiquing := True\<rparr>) = 1"
    by (simp add: flags_def split: if_splits)
  from fc_set_present [OF idx Some, of "it\<lparr>isCritiquing := True\<rparr>"] z f \<open>flags it = 0\<close>
  show ?thesis using Some
    by (simp add: flag_count_fc startCritique_def Let_def)
qed

lemma flag_count_act:
  "in_order s a \<Longrightarrow> flag_count s \<le> 1 \<Longrightarrow> flag_count (act a s) \<le> 1"
proof (cases a)
  case (StartGeneration i)
  assume "in_order s a"
  with StartGeneration flag_count_startGeneration [of s i] show ?thesis by simp
next
  case (AppendGenerationChunk c)
  assume "flag_count s \<le> 1"
  with AppendGenerationChunk flag_count_appendGenerationChunk [of c s] show ?thesis by simp
next
  case (CompleteGeneration c)
  assume "flag_count s \<le> 1"
  with CompleteGeneration flag_count_completeGeneration [of c s] show ?thesis by simp
next
  case StartCritique
  assume "in_order s a"
  with StartCritique flag_count_startCritique [of s] show ?thesis by simp
next
  case (AppendCritiqueChunk c)
  assume "flag_count s \<le> 1"
  with AppendCritiqueChunk show ?thesis by (simp add: appendCritiqueChunk_def flag_count_def)
next
  case (CompleteCritique k)
  assume "flag_count s \<le> 1"
  with CompleteCritique flag_count_completeCritique [of k s] show ?thesis by simp
next
  case (CompleteIteration c sc k)
  assume "flag_count s \<le> 1"
  with CompleteIteration flag_count_completeIteration [of c sc k s] show ?thesis by simp
next
  case (CompleteSession c sc)
  assume "flag_count s \<le> 1"
  with CompleteSession show ?thesis by (simp add: completeSession_def flag_count_def)
qed

lemma flag_count_acts:
  "ordered_run s as \<Longrightarrow> flag_count s \<le> 1 \<Longrightarrow> flag_count (acts as s) \<le> 1"
proof (induction as arbitrary: s)
  case Nil
  then show ?case by simp
next
  case (Cons a as)
  from Cons.prems have "in_order s a" and r: "ordered_run (act a s) as" by simp_all
  from flag_count_act [OF this(1) Cons.prems(2)] Cons.IH [OF r] show ?case by simp
qed

lemma ordered_run_take: "ordered_run s as \<Longrightarrow> ordered_run s (take n as)"
proof (induction as arbitrary: s n)
  case Nil
  then show ?case by simp
next
  case (Cons a as)
  then show ?case by (cases n) simp_all
qed

lemma acts_append: "acts (as @ bs) s = acts bs (acts as s)"
  by (induction as arbitrary: s) simp_all

lemma ordered_run_nth:
  "ordered_run s as \<Longrightarrow> n < length as \<Longrightarrow> in_order (acts (take n as) s) (as ! n)"
proof (induction as arbitrary: s n)
  case Nil
  then show ?case by simp
next
  case (Cons a as)
  then show ?case by (cases n) simp_all
qed

lemma acts_take_Suc:
  "n < length as \<Longrightarrow> acts (take (Suc n) as) s = act (as ! n) (acts (take n as) s)"
  by (simp add: take_Suc_conv_app_nth acts_append)

lemma critique_written_okI:
  assumes "\<And>j it'. js_get (iterations s') j = Some it' \<Longrightarrow> critique it' \<noteq> None \<Longrightarrow>
             map_option critique (js_get (iterations s) j) \<noteq> Some (critique it') \<Longrightarrow>
             generation it' \<noteq> []"
  shows "critique_written_ok s s'"
  unfolding critique_written_ok_def using assms by (auto split: option.splits)

lemma write_current_cases:
  assumes "js_get (case js_get (spread a) i of None \<Rightarrow> spread a | Some it \<Rightarrow> js_set (spread a) i (f it)) j
             = Some it'"
  shows "(j = i \<and> (\<exists>it. js_get (spread a) i = Some it \<and> js_get a i = Some it \<and> it' = f it))
       \<or> js_get a j = Some it'"
proof (cases "js_get (spread a) i")
  case None
  with assms show ?thesis by (simp add: js_get_spread split: if_splits)
next
  case (Some it)
  then have "js_get a i = Some it" by (simp add: js_get_spread split: if_splits)
  with Some assms show ?thesis
    by (auto simp add: js_get_set js_get_spread split: if_splits)
qed

lemma cw_unchanged_critique:
  assumes "iterations s' = (case js_get (spread (iterations s)) i of
                               None \<Rightarrow> spread (iterations s)
                             | Some it \<Rightarrow> js_set (spread (iterations s)) i (f it))"
    and "\<And>it. critique (f it) = critique it"
  shows "critique_written_ok s s'"
proof (rule critique_written_okI)
  fix j it'
  assume "js_get (iterations s') j = Some it'"
    and n: "map_option critique (js_get (iterations s) j) \<noteq> Some (critique it')"
  from write_current_cases [OF this(1) [unfolded assms(1)]] n assms(2)
  show "generation it' \<noteq> []" by auto
qed

lemma cw_nonempty_generation:
  assumes "iterations s' = (case js_get (spread (iterations s)) i of
                               None \<Rightarrow> spread (iterations s)
                             | Some it \<Rightarrow> js_set (spread (iterations s)) i (f it))"
    and "\<And>it. js_get (spread (iterations s)) i = Some it \<Longrightarrow> generation (f it) \<noteq> []"
  shows "critique_written_ok s s'"
proof (rule critique_written_okI)
  fix j it'
  assume "js_get (iterations s') j = Some it'"
    and n: "map_option critique (js_get (iterations s) j) \<noteq> Some (critique it')"
  from write_current_cases [OF this(1) [unfolded assms(1)]] n assms(2)
  show "generation it' \<noteq> []" by auto
qed

lemma cw_same_iterations: "iterations s' = iterations s \<Longrightarrow> critique_written_ok s s'"
  by (rule critique_written_okI) simp

lemma cw_startGeneration: "critique_written_ok s (startGeneration i s)"
proof (rule critique_written_okI)
  fix j it'
  assume g: "js_get (iterations (startGeneration i s)) j = Some it'"
    and c: "critique it' \<noteq> None"
    and n: "map_option critique (js_get (iterations s) j) \<noteq> Some (critique it')"
  show "generation it' \<noteq> []"
  proof (cases "js_get (spread (iterations s)) i")
    case None
    with g c n show ?thesis
      by (auto simp add: startGeneration_def Let_def js_get_set js_get_spread split: if_splits)
  next
    case (Some it)
    then have "js_get (iterations s) i = Some it" by (simp add: js_get_spread split: if_splits)
    with Some g c n show ?thesis
      by (auto simp add: startGeneration_def Let_def js_get_set js_get_spread split: if_splits)
  qed
qed

lemma cw_act: "in_order s a \<Longrightarrow> critique_written_ok s (act a s)"
proof (cases a)
  case (StartGeneration i)
  then show ?thesis by (simp add: cw_startGeneration)
next
  case (AppendGenerationChunk c)
  have "critique_written_ok s (appendGenerationChunk c s)"
    by (rule cw_unchanged_critique [where i = "currentIteration s"
          and f = "\<lambda>it. it\<lparr>generation := streamingContent s @ c\<rparr>"])
       (simp_all add: appendGenerationChunk_def Let_def)
  with AppendGenerationChunk show ?thesis by simp
next
  case (CompleteGeneration c)
  have "critique_written_ok s (completeGeneration c s)"
    by (rule cw_unchanged_critique [where i = "currentIteration s"
          and f = "\<lambda>it. it\<lparr>generation := c, isGenerating := False\<rparr>"])
       (simp_all add: completeGeneration_def Let_def)
  with CompleteGeneration show ?thesis by simp
next
  case StartCritique
  have "critique_written_ok s (startCritique s)"
    by (rule cw_unchanged_critique [where i = "currentIteration s"
          and f = "\<lambda>it. it\<lparr>isCritiquing := True\<rparr>"])
       (simp_all add: startCritique_def Let_def)
  with StartCritique show ?thesis by simp
next
  case (AppendCritiqueChunk c)
  then show ?thesis by (simp add: cw_same_iterations appendCritiqueChunk_def)
next
  case (CompleteCritique k)
  assume "in_order s a"
  with CompleteCritique have
    g: "\<And>it. js_get (spread (iterations s)) (currentIteration s) = Some it \<Longrightarrow> generation it \<noteq> []"
    by (simp add: currentOpen_def)
  have "critique_written_ok s (completeCritique k s)"
    by (rule cw_nonempty_generation [where i = "currentIteration s"
          and f = "\<lambda>it. it\<lparr>critique := Some k, isCritiquing := False\<rparr>"])
       (simp_all add: completeCritique_def Let_def g)
  with CompleteCritique show ?thesis by simp
next
  case (CompleteIteration c sc k)
  assume "in_order s a"
  with CompleteIteration have g: "c \<noteq> []" by simp
  have "critique_written_ok s (completeIteration c sc k s)"
    by (rule cw_nonempty_generation [where i = "currentIteration s"
          and f = "\<lambda>it. it\<lparr>generation := c, critique := Some k,
                              isGenerating := False, isCritiquing := False\<rparr>"])
       (simp_all add: completeIteration_def Let_def g)
  with CompleteIteration show ?thesis by simp
next
  case (CompleteSession c sc)
  then show ?thesis by (simp add: cw_same_iterations completeSession_def)
qed

text \<open>
  Claim C5, amended. Along every sequence of store actions from the initial state in which
  \<open>startGeneration\<close> and \<open>startCritique\<close> are applied only when no phase flag is set,
  \<open>completeCritique\<close> only when the current iteration's generation is non-empty, and
  \<open>completeIteration\<close> only with non-empty content: at every moment at most one of the
  flags \<open>isGenerating\<close> and \<open>isCritiquing\<close> is set over all iterations, and every step
  that gives an iteration a new non-null critique leaves it with a non-empty generation.
\<close>

theorem ordered_run_exclusive:
  assumes "ordered_run initialState as"
  shows "(\<forall>n. flag_count (acts (take n as) initialState) \<le> 1)
       \<and> (\<forall>n<length as. critique_written_ok (acts (take n as) initialState)
                                              (acts (take (Suc n) as) initialState))"
proof (intro conjI allI impI)
  fix n
  have "flag_count initialState \<le> 1"
    by (simp add: flag_count_def array_flags_def initialState_def js_empty_def)
  with flag_count_acts [OF ordered_run_take [OF assms, of n]]
  show "flag_count (acts (take n as) initialState) \<le> 1" .
next
  fix n assume "n < length as"
  from cw_act [OF ordered_run_nth [OF assms this]] acts_take_Suc [OF this, of initialState]
  show "critique_written_ok (acts (take n as) initialState) (acts (take (Suc n) as) initialState)"
    by simp
qed

text \<open>One round in the server's order.\<close>

theorem ordered_run_exclusive_witness:
  "ordered_run initialState
     [StartGeneration 0, AppendGenerationChunk ''Hel'', CompleteGeneration ''Hello'',
      StartCritique, CompleteCritique critique_sample, CompleteSession ''Hello'' 7.5]
   \<and> flag_count (acts
     [StartGeneration 0, AppendGenerationChunk ''Hel'', CompleteGeneration ''Hello'',
      StartCritique] initialState) \<le> 1
   \<and> critique_written_ok
        (acts [StartGeneration 0, AppendGenerationChunk ''Hel'', CompleteGeneration ''Hello'',
               StartCritique] initialState)
        (acts [StartGeneration 0, AppendGenerationChunk ''Hel'', CompleteGeneration ''Hello'',
               StartCritique, CompleteCritique critique_sample] initialState)"
proof -
  let ?as = "[StartGeneration 0, AppendGenerationChunk ''Hel'', CompleteGeneration ''Hello'',
      StartCritique, CompleteCritique critique_sample, CompleteSession ''Hello'' 7.5]"
  have h: "ordered_run initialState ?as"
    by (simp add: store_defs flag_count_def array_flags_def flags_opt_def flags_def currentOpen_def)
  from ordered_run_exclusive [OF h]
  have f: "\<forall>n. flag_count (acts (take n ?as) initialState) \<le> 1"
    and c: "\<forall>n<length ?as. critique_written_ok (acts (take n ?as) initialState)
                                              (acts (take (Suc n) ?as) initialState)"
    by blast+
  have t4: "take 4 ?as = [StartGeneration 0, AppendGenerationChunk ''Hel'', CompleteGeneration ''Hello'',
      StartCritique]"
    and t5: "take (Suc 4) ?as = [StartGeneration 0, AppendGenerationChunk ''Hel'', CompleteGeneration ''Hello'',
      StartCritique, CompleteCritique critique_sample]"
    by (simp_all add: numeral_eq_Suc)
  have l: "4 < length ?as" by simp
  from f have "flag_count (acts (take 4 ?as) initialState) \<le> 1" by (rule spec)
  moreover note c [rule_format, OF l]
  ultimately show ?thesis using h unfolding t4 t5 by blast
qed

text \<open>
  Without the server's order: \<open>critique_start\<close> while the generation is open sets both
  flags of iteration 0; and the sequence by which a stored session is loaded, with an empty
  generation, writes a critique to an iteration whose generation is empty.
\<close>

theorem unordered_actions_counterexample:
  "flag_count (acts [StartGeneration 0, StartCritique] initialState) = 2
   \<and> \<not> critique_written_ok
        (acts [StartGeneration 0, CompleteGeneration []] initialState)
        (acts [StartGeneration 0, CompleteGeneration [], CompleteCritique critique_sample] initialState)"
proof -
  have a: "flag_count (acts [StartGeneration 0, StartCritique] initialState) = 2"
    by (simp add: store_defs flag_count_def array_flags_def flags_opt_def flags_def)
  have b1: "iterations (acts [StartGeneration 0, CompleteGeneration []] initialState)
     = \<lparr>elems = [Some \<lparr>number = 0, generation = [],
                      generation_model = Some ''anthropic/claude-3.7-sonnet'',
                      critique = None,
                      critique_model = Some ''openai/o3'',
                      isGenerating = False,
                      isCritiquing = False\<rparr>], props = []\<rparr>"
    by (simp add: store_defs)
  have b2: "iterations (acts [StartGeneration 0, CompleteGeneration [],
                             CompleteCritique critique_sample] initialState)
     = \<lparr>elems = [Some \<lparr>number = 0, generation = [],
                      generation_model = Some ''anthropic/claude-3.7-sonnet'',
                      critique = Some critique_sample,
                      critique_model = Some ''openai/o3'',
                      isGenerating = False,
                      isCritiquing = False\<rparr>], props = []\<rparr>"
    by (simp add: store_defs)
  have "\<not> critique_written_ok
        (acts [StartGeneration 0, CompleteGeneration []] initialState)
        (acts [StartGeneration 0, CompleteGeneration [], CompleteCritique critique_sample] initialState)"
    unfolding critique_written_ok_def b1 b2
    by (simp add: array_keys_def js_get_def is_array_index_def)
  with a show ?thesis by blast
qed

subsection \<open>Messages that are not events\<close>

text \<open>
  Claim C8. When the payload parses to an event whose type is none of the thirteen known
  ones, the dispatcher returns the world it was given, every field of the store and every
  reference of the hook included; the handler only adds its console line.
\<close>

theorem unknown_type_ignored:
  assumes "parse payload = Inr (JObject d)" and "ev_type d \<notin> set known_types"
  shows "dispatch d w = w
       \<and> ws_onmessage parse payload w = Inr (console_log ''WS Event:'' w)
       \<and> store (console_log ''WS Event:'' w) = store w
       \<and> (console_log ''WS Event:'' w)\<lparr>console := console w\<rparr> = w"
proof -
  have u: "dispatch d w' = w'" for w'
    using assms(2) by (rule dispatch_unknown)
  have "ws_onmessage parse payload w = Inr (console_log ''WS Event:'' w)"
    using assms(1) by (simp add: ws_onmessage_def onmessage_try_def u)
  then show ?thesis
    using u by (simp add: console_log_def)
qed

text \<open>A heartbeat, which the dispatcher does not know.\<close>

theorem unknown_type_ignored_witness:
  "ws_onmessage parse_sample ''{}'' running_world = Inr (console_log ''WS Event:'' running_world)
   \<and> dispatch event_sample running_world = running_world"
  using unknown_type_ignored [of parse_sample "''{}''" event_sample running_world]
  by (simp add: parse_sample_def event_sample_def known_types_def)

text \<open>
  Claim C9. When \<^verbatim>\<open>JSON.parse\<close> throws (or returns \<^verbatim>\<open>null\<close>, whose \<open>type\<close> cannot be
  read), the handler completes normally and the world is the one before with one more
  console error line: the store, the sockets and their states, the references and the
  list of platform calls are unchanged, so nothing is closed.
\<close>

theorem malformed_dropped:
  assumes "parse payload = Inl e \<or> parse payload = Inr JNull"
  shows "ws_onmessage parse payload w = Inr (console_error ''Failed to parse WebSocket message:'' w)
       \<and> store (console_error ''Failed to parse WebSocket message:'' w) = store w
       \<and> (console_error ''Failed to parse WebSocket message:'' w)\<lparr>console := console w\<rparr> = w
       \<and> (step parse (EvMessage k payload) w)\<lparr>console := console w\<rparr> = w"
proof -
  have m: "ws_onmessage parse payload w = Inr (console_error ''Failed to parse WebSocket message:'' w)"
    using assms by (auto simp add: ws_onmessage_def onmessage_try_def)
  have "(step parse (EvMessage k payload) w)\<lparr>console := console w\<rparr> = w"
    by (simp add: m console_error_def)
  with m show ?thesis by (simp add: console_error_def)
qed

text \<open>A payload that is not JSON, on the open socket of session \<open>s1\<close>.\<close>

theorem malformed_dropped_witness:
  "ws_onmessage parse_sample ''not json'' running_world
     = Inr (console_error ''Failed to parse WebSocket message:'' running_world)
   \<and> sockets (step parse_sample (EvMessage 0 ''not json'') running_world)
       = [\<lparr>sock_sid = ''s1'', readyState = OPEN\<rparr>]"
proof -
  have p: "parse_sample ''not json'' = Inl SyntaxError \<or> parse_sample ''not json'' = Inr JNull"
    by (simp add: parse_sample_def)
  from malformed_dropped [of parse_sample "''not json''" SyntaxError running_world 0] p
  have a: "ws_onmessage parse_sample ''not json'' running_world
          = Inr (console_error ''Failed to parse WebSocket message:'' running_world)"
    and b: "(step parse_sample (EvMessage 0 ''not json'') running_world)
           \<lparr>console := console running_world\<rparr> = running_world"
    by blast+
  have "sockets ((step parse_sample (EvMessage 0 ''not json'') running_world)
           \<lparr>console := console running_world\<rparr>) = sockets running_world"
    by (simp only: b)
  then have "sockets (step parse_sample (EvMessage 0 ''not json'') running_world)
       = [\<lparr>sock_sid = ''s1'', readyState = OPEN\<rparr>]"
    by (simp add: running_world_eq)
  with a show ?thesis by blast
qed

subsection \<open>Bounded reconnection\<close>

lemma onclose_schedules:
  assumes "\<not> isIntentionalCloseRef w" "status (store w) = Running"
    "connectedSessionRef w = Some sid" "reconnectAttempts w < 3"
  shows "timeouts (ws_onclose sid w) = timeouts w @ [(1000 * int (Suc (reconnectAttempts w)), sid)]"
    and "reconnectAttempts (ws_onclose sid w) = Suc (reconnectAttempts w)"
  using assms
  by (simp_all add: ws_onclose_def Let_def console_log_def setWsConnected_def setTimeout_def
      maxReconnectAttempts_def)

lemma onclose_gives_up:
  assumes "isIntentionalCloseRef w \<or> status (store w) \<noteq> Running
    \<or> connectedSessionRef w \<noteq> Some sid \<or> \<not> reconnectAttempts w < 3"
  shows "timeouts (ws_onclose sid w) = timeouts w"
    and "reconnectAttempts (ws_onclose sid w) = reconnectAttempts w"
  using assms
  by (auto simp add: ws_onclose_def Let_def console_log_def setWsConnected_def setTimeout_def
      maxReconnectAttempts_def)

lemma step_close_of:
  assumes "steady sid w" and "is_close_of sid w e"
  shows "reconnectAttempts w < 3 \<Longrightarrow>
           timeouts (step parse e w) = timeouts w @ [(1000 * int (Suc (reconnectAttempts w)), sid)]
         \<and> reconnectAttempts (step parse e w) = Suc (reconnectAttempts w)"
    and "\<not> reconnectAttempts w < 3 \<Longrightarrow>
           timeouts (step parse e w) = timeouts w
         \<and> reconnectAttempts (step parse e w) = reconnectAttempts w"
proof -
  from assms(2) obtain k where e: "e = EvClose k" by (cases e) simp_all
  with assms(2) have k: "k < length (sockets w)" "ready w k \<noteq> Some CLOSED"
    "sock_sid (sockets w ! k) = sid" by simp_all
  let ?w = "set_ready k CLOSED w"
  from assms(1) have s: "\<not> isIntentionalCloseRef ?w" "status (store ?w) = Running"
    "connectedSessionRef ?w = Some sid"
    by (simp_all add: steady_def set_ready_frame)
  have st: "step parse e w = ws_onclose sid ?w" using e k by simp
  show "reconnectAttempts w < 3 \<Longrightarrow>
           timeouts (step parse e w) = timeouts w @ [(1000 * int (Suc (reconnectAttempts w)), sid)]
         \<and> reconnectAttempts (step parse e w) = Suc (reconnectAttempts w)"
    using onclose_schedules [OF s] by (simp add: st set_ready_frame)
  show "\<not> reconnectAttempts w < 3 \<Longrightarrow>
           timeouts (step parse e w) = timeouts w
         \<and> reconnectAttempts (step parse e w) = reconnectAttempts w"
    using onclose_gives_up [of ?w sid] by (simp add: st set_ready_frame)
qed

lemma step_other:
  assumes "steady sid w" and "no_reset e" and "\<not> is_close_of sid w e"
  shows "timeouts (step parse e w) = timeouts w
       \<and> reconnectAttempts (step parse e w) = reconnectAttempts w"
proof (cases e)
  case (EvOpen k)
  with assms(2) show ?thesis by simp
next
  case (EvMessage k payload)
  from onmessage_total obtain w' where m: "ws_onmessage parse payload w = Inr w'" by blast
  from onmessage_frame [OF m] m EvMessage show ?thesis by simp
next
  case (EvError k)
  then show ?thesis by (simp add: ws_onerror_def console_error_def)
next
  case (EvClose k)
  show ?thesis
  proof (cases "k < length (sockets w) \<and> ready w k \<noteq> Some CLOSED")
    case False
    with EvClose show ?thesis by auto
  next
    case True
    with EvClose assms(3) have "sock_sid (sockets w ! k) \<noteq> sid" by simp
    with assms(1) have "connectedSessionRef (set_ready k CLOSED w) \<noteq> Some (sock_sid (sockets w ! k))"
      by (simp add: steady_def set_ready_frame)
    with onclose_gives_up [of "set_ready k CLOSED w" "sock_sid (sockets w ! k)"] EvClose True
    show ?thesis by (simp add: set_ready_frame)
  qed
next
  case (EvTimeout n)
  then show ?thesis by (simp add: connect_frame)
next
  case (EvRender s b)
  with assms(2) show ?thesis by simp
next
  case EvUnmount
  with assms(2) show ?thesis by simp
qed

lemma backoff_step: "a < b \<Longrightarrow> backoff sid a b = (1000 * int (Suc a), sid) # backoff sid (Suc a) b"
  by (simp add: backoff_def upt_conv_Cons)

lemma backoff_empty: "b \<le> a \<Longrightarrow> backoff sid a b = []"
  by (simp add: backoff_def)

lemma run_backoff:
  "steady_run parse sid w evs \<Longrightarrow> reconnectAttempts w \<le> 3 \<Longrightarrow>
   timeouts (run parse evs w)
     = timeouts w @ backoff sid (reconnectAttempts w) (min 3 (reconnectAttempts w + closes parse sid w evs))
   \<and> reconnectAttempts (run parse evs w) = min 3 (reconnectAttempts w + closes parse sid w evs)"
proof (induction evs arbitrary: w)
  case Nil
  then show ?case by (simp add: backoff_empty)
next
  case (Cons e evs)
  let ?w = "step parse e w"
  from Cons.prems have st: "steady sid w" and nr: "no_reset e" and r: "steady_run parse sid ?w evs"
    by simp_all
  show ?case
  proof (cases "is_close_of sid w e")
    case False
    from step_other [OF st nr False, of parse]
    have t: "timeouts ?w = timeouts w" and a: "reconnectAttempts ?w = reconnectAttempts w" by simp_all
    from Cons.IH [OF r] Cons.prems(2) a t False show ?thesis by simp
  next
    case True
    show ?thesis
    proof (cases "reconnectAttempts w < 3")
      case lt: True
      from step_close_of(1) [OF st True lt, of parse]
      have t: "timeouts ?w = timeouts w @ [(1000 * int (Suc (reconnectAttempts w)), sid)]"
        and a: "reconnectAttempts ?w = Suc (reconnectAttempts w)" by simp_all
      from lt a have "reconnectAttempts ?w \<le> 3" by simp
      from Cons.IH [OF r this] have
        "timeouts (run parse evs ?w) = timeouts ?w @ backoff sid (reconnectAttempts ?w)
            (min 3 (reconnectAttempts ?w + closes parse sid ?w evs))"
        "reconnectAttempts (run parse evs ?w) = min 3 (reconnectAttempts ?w + closes parse sid ?w evs)"
        by simp_all
      moreover have "reconnectAttempts w < min 3 (reconnectAttempts w + closes parse sid w (e # evs))"
        using lt True by simp
      ultimately show ?thesis
        using True t a backoff_step [OF \<open>reconnectAttempts w < min 3 (reconnectAttempts w + closes parse sid w (e # evs))\<close>, of sid]
        by simp
    next
      case ge: False
      from step_close_of(2) [OF st True ge, of parse]
      have t: "timeouts ?w = timeouts w" and a: "reconnectAttempts ?w = reconnectAttempts w" by simp_all
      from ge Cons.prems(2) have e3: "reconnectAttempts w = 3" by simp
      from Cons.IH [OF r] Cons.prems(2) a t e3 show ?thesis by (simp add: backoff_empty)
    qed
  qed
qed

lemma backoff_take: "backoff sid 0 (min 3 n) = take n [(1000, sid), (2000, sid), (3000, sid)]"
proof -
  consider "n = 0" | "n = 1" | "n = 2" | "3 \<le> n" by linarith
  then show ?thesis
  proof cases
    case 1 then show ?thesis by (simp add: backoff_def)
  next
    case 2 then show ?thesis by (simp add: backoff_def)
  next
    case 3 then show ?thesis by (simp add: backoff_def upt_conv_Cons)
  next
    case 4
    then have "min 3 n = 3" by simp
    with 4 show ?thesis by (simp add: backoff_def upt_conv_Cons)
  qed
qed

text \<open>
  Claim C4. Take a run that starts with the attempt counter at 0 and during which the
  store's status stays running, the intentional-close flag stays false and the hook stays
  bound to \<open>sid\<close>, with no successful open and no new request from the component (either
  would reset the counter). Whatever else happens in it (messages, errors, timers firing),
  the timers it sets are, in order, one per close of a transport of \<open>sid\<close>: 1000, 2000 and
  3000 milliseconds, each to reconnect to \<open>sid\<close>, and none after the third. With three or
  more closes they are exactly these three.
\<close>

theorem reconnect_bounded:
  assumes "steady_run parse sid w evs" and "reconnectAttempts w = 0"
  shows "timeouts (run parse evs w)
           = timeouts w @ take (closes parse sid w evs) [(1000, sid), (2000, sid), (3000, sid)]
       \<and> (3 \<le> closes parse sid w evs \<longrightarrow>
            timeouts (run parse evs w) = timeouts w @ [(1000, sid), (2000, sid), (3000, sid)])"
proof -
  from run_backoff [OF assms(1)] assms(2)
  have "timeouts (run parse evs w)
           = timeouts w @ take (closes parse sid w evs) [(1000, sid), (2000, sid), (3000, sid)]"
    by (simp add: backoff_take)
  then show ?thesis by simp
qed

text \<open>
  Session \<open>s1\<close> loses its transport, and each of the three reconnections fails: four
  closes, three timers.
\<close>

theorem reconnect_bounded_witness:
  "steady_run parse_sample ''s1'' running_world
     [EvClose 0, EvTimeout 0, EvClose 1, EvTimeout 1, EvClose 2, EvTimeout 2, EvClose 3]
   \<and> closes parse_sample ''s1'' running_world
     [EvClose 0, EvTimeout 0, EvClose 1, EvTimeout 1, EvClose 2, EvTimeout 2, EvClose 3] = 4
   \<and> timeouts (run parse_sample
     [EvClose 0, EvTimeout 0, EvClose 1, EvTimeout 1, EvClose 2, EvTimeout 2, EvClose 3]
     running_world) = [(1000, ''s1''), (2000, ''s1''), (3000, ''s1'')]"
proof -
  let ?evs = "[EvClose 0, EvTimeout 0, EvClose 1, EvTimeout 1, EvClose 2, EvTimeout 2, EvClose 3]"
  have s: "steady_run parse_sample ''s1'' running_world ?evs"
    by (simp add: running_world_eq hook_defs steady_def initialState_def)
  have c: "closes parse_sample ''s1'' running_world ?evs = 4"
    by (simp add: running_world_eq hook_defs initialState_def)
  have a: "reconnectAttempts running_world = 0" and t: "timeouts running_world = []"
    by (simp_all add: running_world_eq)
  have "timeouts (run parse_sample ?evs running_world)
          = timeouts running_world
              @ take (closes parse_sample ''s1'' running_world ?evs)
                  [(1000, ''s1''), (2000, ''s1''), (3000, ''s1'')]"
    using reconnect_bounded [OF s a] by (rule conjunct1)
  also have "\<dots> = [(1000, ''s1''), (2000, ''s1''), (3000, ''s1'')]"
    unfolding c t by simp
  finally show ?thesis using s c by blast
qed

subsection \<open>One live transport\<close>

lemma live_iff:
  "live w j \<longleftrightarrow> j < length (sockets w) \<and>
     (readyState (sockets w ! j) = OPEN \<or> readyState (sockets w ! j) = CONNECTING)"
  by (simp add: live_def ready_def)

lemma live_set_ready:
  "live (set_ready k r w) j \<longleftrightarrow>
     (if j = k \<and> k < length (sockets w) then r = OPEN \<or> r = CONNECTING else live w j)"
  by (auto simp add: live_iff set_ready_def nth_list_update)

lemma live_create:
  "live (createReasoningWebSocket sid w) j \<longleftrightarrow> j = length (sockets w) \<or> live w j"
  by (auto simp add: live_iff createReasoningWebSocket_def nth_append)

lemma live_calls: "live (w\<lparr>calls := c\<rparr>) j = live w j"
  by (simp add: live_iff)

lemma live_ws_close: "live (ws_close k w) j \<longleftrightarrow> j \<noteq> k \<and> live w j"
proof (cases "ready w k = Some OPEN \<or> ready w k = Some CONNECTING")
  case True
  then have "k < length (sockets w)" by (auto simp add: ready_def split: if_splits)
  with True show ?thesis
    by (simp add: ws_close_def Let_def live_set_ready live_calls)
next
  case False
  then have "\<not> live w k" by (simp add: live_def)
  with False show ?thesis
    by (auto simp add: ws_close_def Let_def live_calls)
qed

lemma live_cong:
  "sockets w' = sockets w \<Longrightarrow> live w' j = live w j"
  by (simp add: live_iff)

lemma ws_live: "wsRef w = Some k \<Longrightarrow>
  (ws_readyState w = Some OPEN \<or> ws_readyState w = Some CONNECTING) = live w k"
  by (simp add: ws_readyState_def live_def)

lemma one_live_none: "one_live w \<Longrightarrow> wsRef w = None \<Longrightarrow> \<not> live w j"
  by (auto simp add: one_live_def)

lemma live_connect_fresh:
  assumes "\<And>j. \<not> live w j" and "\<not> (ws_readyState w = Some OPEN \<or> ws_readyState w = Some CONNECTING)"
  shows "live (connect sid w) j \<longleftrightarrow> j = length (sockets w)"
    and "wsRef (connect sid w) = Some (length (sockets w))"
proof -
  let ?w2 = "(console_log ''Connecting WebSocket for session:'' w)\<lparr>isIntentionalCloseRef := False\<rparr>"
  have s2: "sockets ?w2 = sockets w" by (simp add: console_log_def)
  have c: "connect sid w = (createReasoningWebSocket sid ?w2)
             \<lparr>wsRef := Some (length (sockets ?w2)), connectedSessionRef := Some sid\<rparr>"
    using assms(2) by (simp add: connect_def Let_def)
  have "live (connect sid w) j = live (createReasoningWebSocket sid ?w2) j"
    unfolding c by (rule live_cong) simp
  also have "\<dots> \<longleftrightarrow> j = length (sockets ?w2) \<or> live ?w2 j" by (rule live_create)
  also have "live ?w2 j = live w j" by (rule live_cong [OF s2])
  finally show "live (connect sid w) j \<longleftrightarrow> j = length (sockets w)"
    using assms(1) [of j] s2 by simp
  show "wsRef (connect sid w) = Some (length (sockets w))"
    unfolding c using s2 by simp
qed

lemma one_live_connect: "one_live w \<Longrightarrow> one_live (connect sid w)"
proof (cases "ws_readyState w = Some OPEN \<or> ws_readyState w = Some CONNECTING")
  case True
  assume "one_live w"
  with True show ?thesis by (simp add: connect_def)
next
  case False
  assume o: "one_live w"
  have nl: "\<not> live w j" for j
  proof
    assume l: "live w j"
    with o have "wsRef w = Some j" by (simp add: one_live_def)
    with ws_live [OF this] l False show False by simp
  qed
  from live_connect_fresh [OF nl False, of sid] show ?thesis by (simp add: one_live_def)
qed

text \<open>Closing the current socket, marked intentional, and dropping the reference.\<close>

lemma close_current_none_live:
  assumes "one_live w" and that: "wsRef w = Some k"
  shows "\<not> live ((ws_close k (w\<lparr>isIntentionalCloseRef := True\<rparr>))\<lparr>wsRef := None\<rparr>) j"
proof -
  have "live (w\<lparr>isIntentionalCloseRef := True\<rparr>) j = live w j" for j
    by (simp add: live_iff)
  moreover have "live w j \<Longrightarrow> j = k" for j
    using assms by (simp add: one_live_def)
  ultimately have "\<not> live (ws_close k (w\<lparr>isIntentionalCloseRef := True\<rparr>)) j"
    by (auto simp add: live_ws_close)
  moreover have "live (w'\<lparr>wsRef := None\<rparr>) j = live w' j" for w'
    by (simp add: live_iff)
  ultimately show ?thesis by simp
qed

lemma one_live_no_live: "(\<And>j. \<not> live w j) \<Longrightarrow> one_live w"
  by (simp add: one_live_def)

lemma one_live_cleanup: "one_live w \<Longrightarrow> one_live (effect_cleanup w)"
proof (cases "wsRef w")
  case None
  assume "one_live w"
  from one_live_none [OF this None] have "\<not> live (effect_cleanup w) j" for j
    using None by (simp add: effect_cleanup_def live_iff)
  then show ?thesis by (rule one_live_no_live)
next
  case (Some k)
  assume "one_live w"
  from close_current_none_live [OF this Some] have "\<not> live (effect_cleanup w) j" for j
    using Some by (simp add: effect_cleanup_def Let_def live_iff)
  then show ?thesis by (rule one_live_no_live)
qed

lemma one_live_attempts: "one_live (w\<lparr>reconnectAttempts := n\<rparr>) = one_live w"
  by (simp add: one_live_def live_iff)

lemma one_live_sessionEffect: "one_live w \<Longrightarrow> one_live (sessionEffect sid b w)"
proof (cases sid)
  case None
  assume "one_live w"
  with None show ?thesis by (simp add: one_live_cleanup)
next
  case (Some s)
  assume o: "one_live w"
  show ?thesis
  proof (cases "s = [] \<or> \<not> b")
    case True
    with Some o show ?thesis by (auto simp add: one_live_cleanup)
  next
    case nb: False
    show ?thesis
    proof (cases "connectedSessionRef w = Some s \<and> ws_readyState w = Some OPEN")
      case True
      with Some nb o show ?thesis by simp
    next
      case False
      let ?w1 = "(case wsRef w of
                     None \<Rightarrow> w
                   | Some k \<Rightarrow>
                       if connectedSessionRef w \<noteq> Some s
                       then (ws_close k (w\<lparr>isIntentionalCloseRef := True\<rparr>))\<lparr>wsRef := None\<rparr>
                       else w)"
      have "one_live ?w1"
      proof (cases "wsRef w")
        case None
        with o show ?thesis by simp
      next
        case k: (Some k)
        show ?thesis
        proof (cases "connectedSessionRef w \<noteq> Some s")
          case True
          from close_current_none_live [OF o k]
          have "one_live ((ws_close k (w\<lparr>isIntentionalCloseRef := True\<rparr>))\<lparr>wsRef := None\<rparr>)"
            by (rule one_live_no_live)
          with k True show ?thesis by simp
        next
          case False
          with k o show ?thesis by simp
        qed
      qed
      then have "one_live (connect s (?w1\<lparr>reconnectAttempts := 0\<rparr>))"
        by (intro one_live_connect) (simp add: one_live_attempts)
      with Some nb False show ?thesis by (auto simp add: Let_def)
    qed
  qed
qed

lemma one_live_unmount: "one_live w \<Longrightarrow> one_live (unmountCleanup w)"
proof (cases "wsRef w")
  case None
  assume "one_live w"
  from one_live_none [OF this None] have "\<not> live (unmountCleanup w) j" for j
    using None by (simp add: unmountCleanup_def Let_def console_log_def live_iff)
  then show ?thesis by (rule one_live_no_live)
next
  case (Some k)
  assume "one_live w"
  then have "live w j \<Longrightarrow> j = k" for j using Some by (simp add: one_live_def)
  moreover have "live ((console_log m w)\<lparr>isIntentionalCloseRef := True\<rparr>) j = live w j" for j m
    by (simp add: live_iff console_log_def)
  ultimately have "\<not> live (ws_close k ((console_log m w)\<lparr>isIntentionalCloseRef := True\<rparr>)) j" for j m
    by (auto simp add: live_ws_close)
  moreover have "live (w'\<lparr>wsRef := None\<rparr>) j = live w' j" for w' j
    by (simp add: live_iff)
  moreover have "wsRef ((console_log m w)\<lparr>isIntentionalCloseRef := True\<rparr>) = Some k" for m
    using Some by (simp add: console_log_def)
  ultimately have "\<not> live (unmountCleanup w) j" for j
    by (simp add: unmountCleanup_def Let_def)
  then show ?thesis by (rule one_live_no_live)
qed

lemma one_live_cong:
  "sockets w' = sockets w \<Longrightarrow> wsRef w' = wsRef w \<Longrightarrow> one_live w \<Longrightarrow> one_live w'"
  by (simp add: one_live_def live_iff)

lemma one_live_set_ready:
  assumes "one_live w" and "live w k \<or> \<not> (r = OPEN \<or> r = CONNECTING)"
  shows "one_live (set_ready k r w)"
proof -
  have "wsRef (set_ready k r w) = wsRef w" by (simp add: set_ready_def)
  with assms show ?thesis
    by (auto simp add: one_live_def live_set_ready split: if_splits)
qed

lemma one_live_step: "one_live w \<Longrightarrow> one_live (step parse e w)"
proof (cases e)
  case (EvOpen k)
  assume o: "one_live w"
  show ?thesis
  proof (cases "ready w k = Some CONNECTING")
    case True
    then have "live w k" by (simp add: live_def)
    with o have "one_live (set_ready k OPEN w)" by (intro one_live_set_ready) simp_all
    then have "one_live (ws_onopen (set_ready k OPEN w))"
      by (rule one_live_cong [rotated 2]) (simp_all add: ws_onopen_def Let_def console_log_def)
    with True EvOpen show ?thesis by simp
  next
    case False
    with EvOpen o show ?thesis by simp
  qed
next
  case (EvMessage k payload)
  assume o: "one_live w"
  obtain w' where m: "ws_onmessage parse payload w = Inr w'"
    by (cases "onmessage_try parse payload w") (simp_all add: ws_onmessage_def)
  from onmessage_frame [OF this] have "sockets w' = sockets w" "wsRef w' = wsRef w"
    by simp_all
  with o have "one_live w'" by (rule one_live_cong [rotated 2])
  with m o EvMessage show ?thesis by simp
next
  case (EvError k)
  assume o: "one_live w"
  have "one_live (ws_onerror w)"
    using o by (rule one_live_cong [rotated 2]) (simp_all add: ws_onerror_def console_error_def)
  with EvError o show ?thesis by simp
next
  case (EvClose k)
  assume o: "one_live w"
  have "one_live (set_ready k CLOSED w)" using o by (intro one_live_set_ready) simp_all
  then have "one_live (ws_onclose sid (set_ready k CLOSED w))" for sid
    by (rule one_live_cong [rotated 2])
       (simp_all add: ws_onclose_def Let_def console_log_def setTimeout_def)
  with EvClose o show ?thesis by simp
next
  case (EvTimeout n)
  assume o: "one_live w"
  then have "one_live (w\<lparr>fired := n # fired w\<rparr>)" by (simp add: one_live_def live_iff)
  from one_live_connect [OF this] EvTimeout o show ?thesis by simp
next
  case (EvRender sid b)
  assume "one_live w"
  with EvRender show ?thesis by (simp add: one_live_sessionEffect)
next
  case EvUnmount
  assume "one_live w"
  with EvUnmount show ?thesis by (simp add: one_live_unmount)
qed

lemma one_live_run: "one_live w \<Longrightarrow> one_live (run parse evs w)"
  by (induction evs arbitrary: w) (simp_all add: one_live_step)

lemma one_live_initial: "one_live initialWorld"
  by (simp add: one_live_def live_iff initialWorld_def)

lemma length_sockets_ws_close: "length (sockets (ws_close k w)) = length (sockets w)"
  by (simp add: ws_close_def Let_def set_ready_def)

lemma switch_calls:
  assumes "new \<noteq> []" and "wsRef w = Some k" and "connectedSessionRef w \<noteq> Some new"
  shows "sessionEffect (Some new) True w =
           connect new ((ws_close k (w\<lparr>isIntentionalCloseRef := True\<rparr>))\<lparr>wsRef := None, reconnectAttempts := 0\<rparr>)"
    and "calls (sessionEffect (Some new) True w)
           = calls w @ [WsClose k True, WsCreate (length (sockets w)) new]"
    and "wsRef (sessionEffect (Some new) True w) = Some (length (sockets w))"
    and "connectedSessionRef (sessionEffect (Some new) True w) = Some new"
  using assms
  by (simp_all add: Let_def connect_def ws_readyState_def ws_close_def set_ready_def
      createReasoningWebSocket_def console_log_def)

text \<open>
  Claim C7. In every state the hook reaches from its initial one, by any sequence of
  renders with a session id and a flag, unmounts, timers and socket events, at most one
  transport is open or connecting. And when in such a state, with a socket \<open>k\<close> held, a
  render asks for a non-empty session id other than the bound one, the platform calls it
  makes are, in this order, \<open>close()\<close> on \<open>k\<close> with \<open>isIntentionalCloseRef\<close> true and then
  the creation of the new socket; after the close no transport is live, and after the
  effect only the new one is.
\<close>

theorem switch_closes_before_open:
  "(\<forall>i j. live (run parse evs initialWorld) i \<longrightarrow> live (run parse evs initialWorld) j \<longrightarrow> i = j)
   \<and> (\<forall>new k. new \<noteq> [] \<and> wsRef (run parse evs initialWorld) = Some k
          \<and> connectedSessionRef (run parse evs initialWorld) \<noteq> Some new \<longrightarrow>
        calls (sessionEffect (Some new) True (run parse evs initialWorld))
          = calls (run parse evs initialWorld)
              @ [WsClose k True, WsCreate (length (sockets (run parse evs initialWorld))) new]
        \<and> (\<forall>j. \<not> live (ws_close k ((run parse evs initialWorld)\<lparr>isIntentionalCloseRef := True\<rparr>)) j)
        \<and> (\<forall>j. live (sessionEffect (Some new) True (run parse evs initialWorld)) j
              \<longleftrightarrow> j = length (sockets (run parse evs initialWorld))))"
proof -
  let ?W = "run parse evs initialWorld"
  have o: "one_live ?W" by (rule one_live_run [OF one_live_initial])
  have a: "\<forall>i j. live ?W i \<longrightarrow> live ?W j \<longrightarrow> i = j"
    using o unfolding one_live_def by (metis option.inject)
  have b: "calls (sessionEffect (Some new) True ?W)
             = calls ?W @ [WsClose k True, WsCreate (length (sockets ?W)) new]
         \<and> (\<forall>j. \<not> live (ws_close k (?W\<lparr>isIntentionalCloseRef := True\<rparr>)) j)
         \<and> (\<forall>j. live (sessionEffect (Some new) True ?W) j \<longleftrightarrow> j = length (sockets ?W))"
    if h: "new \<noteq> []" "wsRef ?W = Some k" "connectedSessionRef ?W \<noteq> Some new" for new k
  proof -
    let ?W1 = "(ws_close k (?W\<lparr>isIntentionalCloseRef := True\<rparr>))\<lparr>wsRef := None, reconnectAttempts := 0\<rparr>"
    have c1: "\<not> live ?W1 j" for j
      using close_current_none_live [OF o h(2), of j] by (simp add: live_iff)
    then have c: "\<not> live (ws_close k (?W\<lparr>isIntentionalCloseRef := True\<rparr>)) j" for j
      using c1 [of j] by (simp add: live_iff)
    have "\<not> (ws_readyState ?W1 = Some OPEN \<or> ws_readyState ?W1 = Some CONNECTING)"
      by (simp add: ws_readyState_def)
    from live_connect_fresh(1) [OF c1 this, of new]
    have "live (sessionEffect (Some new) True ?W) j \<longleftrightarrow> j = length (sockets ?W)" for j
      unfolding switch_calls(1) [OF h] by (simp add: length_sockets_ws_close)
    with c switch_calls(2) [OF h] show ?thesis by blast
  qed
  from a b show ?thesis by blast
qed

text \<open>Session \<open>s1\<close> is open when the component renders with \<open>s2\<close>.\<close>

theorem switch_closes_before_open_witness:
  "calls (sessionEffect (Some ''s2'') True
            (run parse_sample [EvRender (Some ''s1'') True, EvOpen 0] initialWorld))
     = [WsCreate 0 ''s1'', WsClose 0 True, WsCreate 1 ''s2'']
   \<and> live (sessionEffect (Some ''s2'') True
            (run parse_sample [EvRender (Some ''s1'') True, EvOpen 0] initialWorld)) 1
   \<and> \<not> live (sessionEffect (Some ''s2'') True
            (run parse_sample [EvRender (Some ''s1'') True, EvOpen 0] initialWorld)) 0"
proof -
  let ?W = "run parse_sample [EvRender (Some ''s1'') True, EvOpen 0] initialWorld"
  have w: "wsRef ?W = Some 0" "connectedSessionRef ?W \<noteq> Some ''s2''"
    "calls ?W = [WsCreate 0 ''s1'']" "length (sockets ?W) = 1"
    by (simp_all add: hook_defs)
  have p: "''s2'' \<noteq> [] \<and> wsRef ?W = Some 0 \<and> connectedSessionRef ?W \<noteq> Some ''s2''"
    using w(1,2) by simp
  note t = switch_closes_before_open [of parse_sample "[EvRender (Some ''s1'') True, EvOpen 0]",
      THEN conjunct2, rule_format, OF p]
  from t have "calls (sessionEffect (Some ''s2'') True ?W)
          = calls ?W @ [WsClose 0 True, WsCreate (length (sockets ?W)) ''s2'']"
    by (rule conjunct1)
  then have a: "calls (sessionEffect (Some ''s2'') True ?W)
     = [WsCreate 0 ''s1'', WsClose 0 True, WsCreate 1 ''s2'']"
    by (simp only: w append.simps)
  from t have l: "live (sessionEffect (Some ''s2'') True ?W) j \<longleftrightarrow> j = length (sockets ?W)" for j
    by blast
  have "live (sessionEffect (Some ''s2'') True ?W) 1" "\<not> live (sessionEffect (Some ''s2'') True ?W) 0"
    unfolding l w by simp_all
  with a show ?thesis by blast
qed

subsection \<open>Reset\<close>

text \<open>
  Claim C10. In every state, \<open>reset\<close> gives the initial state with the current
  configuration in place of the default one: every other field is back at its initial
  value and \<open>config\<close> is unchanged.
\<close>

theorem reset_keeps_only_config:
  "reset s = initialState\<lparr>config := config s\<rparr> \<and> config (reset s) = config s"
  by (simp add: reset_def initialState_def)

end
